theory Spec2Isabelle
  imports Complex_Main "HOL-Library.Word" "HOL-Library.Log_Nat"
begin

unbundle bit_operations_syntax

section \<open>The operating system, as the program sees it\<close>

text \<open>
  The program is a directory lister (\<^verbatim>\<open>main.c\<close>). Everything it learns about the world
  comes through a handful of library calls. During one run they are modelled as fixed
  functions of their arguments: \<^verbatim>\<open>lstat\<close>, \<^verbatim>\<open>opendir\<close> followed by the names
  \<^verbatim>\<open>readdir\<close> yields until it returns NULL, \<^verbatim>\<open>getpwuid\<close>, \<^verbatim>\<open>getgrgid\<close>,
  \<^verbatim>\<open>readlink\<close>, the clock (\<^verbatim>\<open>timespec_get\<close>), \<^verbatim>\<open>localtime\<close>, \<^verbatim>\<open>strftime\<close> and
  \<^verbatim>\<open>strerror\<close>. A failing call yields the value of \<^verbatim>\<open>errno\<close> it leaves behind;
  \<^verbatim>\<open>localtime\<close> yields \<open>None\<close> where it returns NULL (the year does not fit an
  \<^verbatim>\<open>int\<close>).
\<close>

type_synonym errno = int

definition EPERM :: errno where "EPERM = 1"
definition ENOENT :: errno where "ENOENT = 2"
definition EACCES :: errno where "EACCES = 13"
definition ENOTDIR :: errno where "ENOTDIR = 20"

record timespec =
  tv_sec :: "64 word"
  tv_nsec :: "64 word"

record tm =
  tm_sec :: int
  tm_min :: int
  tm_hour :: int
  tm_mday :: int
  tm_mon :: int
  tm_year :: int
  tm_wday :: int
  tm_yday :: int
  tm_isdst :: int

record stat =
  st_mode :: "32 word"
  st_nlink :: "64 word"
  st_uid :: "32 word"
  st_gid :: "32 word"
  st_size :: "64 word"
  st_mtim :: timespec

record os =
  lstat :: "string \<Rightarrow> errno + stat"
  opendir :: "string \<Rightarrow> errno + string list"
  getpwuid :: "32 word \<Rightarrow> string option"
  getgrgid :: "32 word \<Rightarrow> string option"
  readlink :: "string \<Rightarrow> string option"
  now :: timespec
  localtime :: "64 word \<Rightarrow> tm option"
  strftime :: "string \<Rightarrow> tm \<Rightarrow> string"
  strerror :: "errno \<Rightarrow> string"

text \<open>The file type and permission masks of \<^verbatim>\<open>sys/stat.h\<close> (octal 170000, 040000, ...).\<close>

definition S_IFMT :: "32 word" where "S_IFMT = 61440"
definition S_IFDIR :: "32 word" where "S_IFDIR = 16384"
definition S_IFREG :: "32 word" where "S_IFREG = 32768"
definition S_IFLNK :: "32 word" where "S_IFLNK = 40960"

definition S_ISDIR :: "32 word \<Rightarrow> bool" where "S_ISDIR m = (m AND S_IFMT = S_IFDIR)"
definition S_ISREG :: "32 word \<Rightarrow> bool" where "S_ISREG m = (m AND S_IFMT = S_IFREG)"
definition S_ISLNK :: "32 word \<Rightarrow> bool" where "S_ISLNK m = (m AND S_IFMT = S_IFLNK)"

definition S_IRUSR :: "32 word" where "S_IRUSR = 256"
definition S_IWUSR :: "32 word" where "S_IWUSR = 128"
definition S_IXUSR :: "32 word" where "S_IXUSR = 64"
definition S_IRGRP :: "32 word" where "S_IRGRP = 32"
definition S_IWGRP :: "32 word" where "S_IWGRP = 16"
definition S_IXGRP :: "32 word" where "S_IXGRP = 8"
definition S_IROTH :: "32 word" where "S_IROTH = 4"
definition S_IWOTH :: "32 word" where "S_IWOTH = 2"
definition S_IXOTH :: "32 word" where "S_IXOTH = 1"

section \<open>Program state and standard output\<close>

text \<open>
  The globals of \<^verbatim>\<open>main.c\<close> (\<^verbatim>\<open>err_code\<close>, \<^verbatim>\<open>file_count\<close>, \<^verbatim>\<open>count_only\<close>,
  \<^verbatim>\<open>human_readable\<close>) and standard output. Output is kept as the lines completed so
  far, each with the text printed before its newline and a tag saying which kind of
  \<^verbatim>\<open>printf\<close> ended it, and the text of the line still open. Both C integers are
  32-bit words; incrementing \<^verbatim>\<open>file_count\<close> beyond \<^verbatim>\<open>INT_MAX\<close>, undefined in C,
  wraps around. Every diagnostic goes to standard output as well: \<^verbatim>\<open>PRINT_ERROR\<close> is
  a \<^verbatim>\<open>printf\<close>.
\<close>

datatype kind = Header | Blank | Entry | Diag | Total

type_synonym line = "kind \<times> string"

record state =
  err_code :: "32 word"
  file_count :: "32 word"
  count_only :: bool
  human_readable :: bool
  out :: "line list"
  pending :: string

definition put :: "string \<Rightarrow> state \<Rightarrow> state" where
  "put t s = s\<lparr>pending := pending s @ t\<rparr>"

definition endl :: "kind \<Rightarrow> state \<Rightarrow> state" where
  "endl k s = s\<lparr>out := out s @ [(k, pending s)], pending := []\<rparr>"

text \<open>The bytes standard output has received.\<close>

definition render :: "state \<Rightarrow> string" where
  "render s = concat (map (\<lambda>(k, t). t @ [CHR 0x0A]) (out s)) @ pending s"

section \<open>Formatting with printf\<close>

fun digits :: "nat \<Rightarrow> string" where
  "digits n = (if n < 10 then [''0123456789'' ! n]
               else digits (n div 10) @ [''0123456789'' ! (n mod 10)])"

declare digits.simps [simp del]

definition show_int :: "int \<Rightarrow> string" where
  "show_int i = (if i < 0 then CHR ''-'' # digits (nat (- i)) else digits (nat i))"

text \<open>\<^verbatim>\<open>%-8s\<close> pads on the right, \<^verbatim>\<open>%5s\<close> and \<^verbatim>\<open>%8lld\<close> on the left.\<close>

definition pad_right :: "nat \<Rightarrow> string \<Rightarrow> string" where
  "pad_right w t = t @ replicate (w - length t) CHR '' ''"

definition pad_left :: "nat \<Rightarrow> string \<Rightarrow> string" where
  "pad_left w t = replicate (w - length t) CHR '' '' @ t"

text \<open>
  A \<^verbatim>\<open>double\<close> is modelled by the rational it holds. Converting a \<^verbatim>\<open>long long\<close>
  is exact below \<open>2^53\<close> and rounds to 53 significant bits (ties to even) above;
  dividing a value of at least 1024 by 1024 is exact. \<^verbatim>\<open>%.1f\<close> prints the decimal
  with one fractional digit nearest to the exact value, ties to even.
\<close>

type_synonym double = rat

definition round_half_even :: "rat \<Rightarrow> int" where
  "round_half_even q =
     (let f = \<lfloor>q\<rfloor>; r = q - of_int f
      in if r < 1 / 2 then f else if 1 / 2 < r then f + 1
         else if even f then f else f + 1)"

definition to_double :: "int \<Rightarrow> double" where
  "to_double i =
     (if \<bar>i\<bar> < 2 ^ 53 then of_int i
      else let e = nat (bitlen \<bar>i\<bar> - 53)
           in of_int (sgn i * round_half_even (of_int \<bar>i\<bar> / 2 ^ e) * 2 ^ e))"

definition fmt_1f :: "double \<Rightarrow> string" where
  "fmt_1f x =
     (let t = round_half_even (\<bar>x\<bar> * 10)
      in (if x < 0 then ''-'' else []) @ digits (nat (t div 10)) @ ''.'' @ digits (nat (t mod 10)))"

definition units :: "string list" where
  "units = [''B'', ''K'', ''M'', ''G'', ''T'', ''P'', ''E'']"

function scale :: "double \<times> nat \<Rightarrow> double \<times> nat" where
  "scale (human_size, unit_index) =
     (if 1024 \<le> human_size \<and> unit_index < 6
      then scale (human_size / 1024, unit_index + 1)
      else (human_size, unit_index))"
  by pat_completeness auto
termination
  by (relation "measure (\<lambda>(h, i). 6 - i)") auto

declare scale.simps [simp del]

definition format_size_human :: "64 word \<Rightarrow> nat \<Rightarrow> string" where
  "format_size_human sz buf_size =
     (case scale (to_double (sint sz), 0) of
        (human_size, unit_index) \<Rightarrow>
          if unit_index = 0 then take (buf_size - 1) (show_int (sint sz))
          else take (buf_size - 1) (fmt_1f human_size @ units ! unit_index))"

section \<open>Name lookup and dates\<close>

text \<open>
  \<^verbatim>\<open>uname_for_uid\<close> and \<^verbatim>\<open>group_for_gid\<close> return 1 on failure (here \<open>None\<close>) and
  otherwise copy the name with \<^verbatim>\<open>strncpy\<close> into a buffer of \<open>buflen\<close> bytes. A name
  of \<open>buflen\<close> bytes or more leaves the buffer without a terminator, and what
  \<^verbatim>\<open>printf\<close> then reads is undefined in C; the model keeps the bytes that were copied.
\<close>

definition uname_for_uid :: "os \<Rightarrow> 32 word \<Rightarrow> nat \<Rightarrow> string option" where
  "uname_for_uid sys uid buflen =
     (case getpwuid sys uid of None \<Rightarrow> None | Some pw_name \<Rightarrow> Some (take buflen pw_name))"

definition group_for_gid :: "os \<Rightarrow> 32 word \<Rightarrow> nat \<Rightarrow> string option" where
  "group_for_gid sys gid buflen =
     (case getgrgid sys gid of None \<Rightarrow> None | Some gr_name \<Rightarrow> Some (take buflen gr_name))"

text \<open>
  A call that does not return to its caller: the process is killed (\<open>Crashed\<close>), or the
  calls of \<^verbatim>\<open>list_dir\<close> went deeper than the bound of the model (\<open>Too_deep\<close>).
\<close>

datatype stop = Crashed | Too_deep

text \<open>
  \<^verbatim>\<open>date_string\<close>: only the seconds of the two times are compared, the comparison with
  the clock is signed, and the difference is compared with an \<^verbatim>\<open>unsigned long long\<close>
  constant, hence as an unsigned value. A subtraction that overflows wraps around. The
  result of \<^verbatim>\<open>localtime\<close> is passed to \<^verbatim>\<open>strftime\<close> unchecked: with NULL the
  process is killed. Otherwise the result is what \<^verbatim>\<open>strftime\<close> leaves in the buffer of
  64 bytes, not the length it returns (the caller ignores the length).
\<close>

definition strftime_at :: "os \<Rightarrow> string \<Rightarrow> tm option \<Rightarrow> stop + string" where
  "strftime_at sys fmt t = (case t of None \<Rightarrow> Inl Crashed | Some v \<Rightarrow> Inr (strftime sys fmt v))"

definition date_string :: "os \<Rightarrow> timespec \<Rightarrow> stop + string" where
  "date_string sys ts =
     (let t = localtime sys (tv_sec ts)
      in if tv_sec (now sys) <s tv_sec ts then strftime_at sys ''%b %e %Y'' t
         else let difference = tv_sec (now sys) - tv_sec ts
              in if difference < 31556952 then strftime_at sys ''%b %e %H:%M'' t
                 else strftime_at sys ''%b %e %Y'' t)"

section \<open>Recording errors\<close>

definition PRINT_ERROR :: "os \<Rightarrow> string \<Rightarrow> string \<Rightarrow> string \<Rightarrow> errno \<Rightarrow> state \<Rightarrow> state" where
  "PRINT_ERROR sys progname what_happened pathandname e s =
     endl Diag (put (progname @ '': '' @ what_happened @ '' '' @ pathandname @ '': ''
                     @ strerror sys e) s)"

definition handle_error :: "os \<Rightarrow> string \<Rightarrow> string \<Rightarrow> errno \<Rightarrow> state \<Rightarrow> state" where
  "handle_error sys what_happened fullname saved_errno s =
     (let s1 = PRINT_ERROR sys ''ls'' what_happened fullname saved_errno s;
          s2 = s1\<lparr>err_code := err_code s1 OR 64\<rparr>
      in if saved_errno = ENOENT then s2\<lparr>err_code := err_code s2 OR 8\<rparr>
         else if saved_errno = EACCES \<or> saved_errno = EPERM
              then s2\<lparr>err_code := err_code s2 OR 16\<rparr>
         else s2\<lparr>err_code := err_code s2 OR 32\<rparr>)"

definition test_file :: "os \<Rightarrow> string \<Rightarrow> state \<Rightarrow> bool \<times> state" where
  "test_file sys pathandname s =
     (case lstat sys pathandname of
        Inl e \<Rightarrow> (False, handle_error sys ''cannot access'' pathandname e s)
      | Inr sb \<Rightarrow> (True, s))"

definition is_dir :: "os \<Rightarrow> string \<Rightarrow> state \<Rightarrow> bool \<times> state" where
  "is_dir sys pathandname s =
     (case lstat sys pathandname of
        Inl e \<Rightarrow> (False, handle_error sys ''No File Found'' ''is_dir'' e s)
      | Inr sb \<Rightarrow> (S_ISDIR (st_mode sb), s))"

section \<open>Listing one entry\<close>

text \<open>
  \<^verbatim>\<open>list_file\<close>. The long branch prints a line piece by piece; the blocks that the
  source marks with the comments "printing the owner name", "group name", "file size" and
  "the file name" are \<open>print_owner\<close>, \<open>print_group\<close>, \<open>print_size\<close> and
  \<open>print_name\<close>. The link count is cast to \<^verbatim>\<open>long\<close>, and the numeric ids are printed
  with \<^verbatim>\<open>%d\<close>, hence as signed values. Where \<^verbatim>\<open>date_string\<close> is killed, the
  line is never completed and \<^verbatim>\<open>list_file\<close> does not return.
\<close>

definition ftype_to_str :: "32 word \<Rightarrow> string" where
  "ftype_to_str m =
     (if S_ISDIR m then ''d'' else if S_ISREG m then ''-'' else if S_ISLNK m then ''l'' else ''?'')"

definition PRINT_PERM_CHAR :: "32 word \<Rightarrow> 32 word \<Rightarrow> string \<Rightarrow> state \<Rightarrow> state" where
  "PRINT_PERM_CHAR m msk ch s = put (if m AND msk \<noteq> 0 then ch else ''-'') s"

definition print_owner :: "os \<Rightarrow> stat \<Rightarrow> state \<Rightarrow> state" where
  "print_owner sys sb s =
     (case uname_for_uid sys (st_uid sb) 32 of
        Some owner \<Rightarrow> put ('' '' @ pad_right 8 owner) s
      | None \<Rightarrow>
          (let s1 = put ('' '' @ pad_right 8 (show_int (sint (st_uid sb)))) s
           in s1\<lparr>err_code := err_code s1 OR (push_bit 6 1 OR push_bit 5 1)\<rparr>))"

definition print_group :: "os \<Rightarrow> stat \<Rightarrow> state \<Rightarrow> state" where
  "print_group sys sb s =
     (case group_for_gid sys (st_gid sb) 32 of
        Some grp \<Rightarrow> put ('' '' @ pad_right 8 grp) s
      | None \<Rightarrow>
          (let s1 = put ('' '' @ pad_right 8 (show_int (sint (st_gid sb)))) s
           in s1\<lparr>err_code := err_code s1 OR (push_bit 6 1 OR push_bit 5 1)\<rparr>))"

definition print_size :: "stat \<Rightarrow> state \<Rightarrow> state" where
  "print_size sb s =
     (if human_readable s then put ('' '' @ pad_left 5 (format_size_human (st_size sb) 16)) s
      else put ('' '' @ pad_left 8 (show_int (sint (st_size sb)))) s)"

definition print_name :: "os \<Rightarrow> stat \<Rightarrow> string \<Rightarrow> string \<Rightarrow> state \<Rightarrow> state" where
  "print_name sys sb pathandname name s =
     (if S_ISLNK (st_mode sb) then
        (case readlink sys pathandname of
           Some target \<Rightarrow> endl Entry (put ('' '' @ name @ '' -> '' @ take 1023 target) s)
         | None \<Rightarrow> endl Entry (put ('' '' @ name @ '' -> ?'') s))
      else
        (let s1 = put ('' '' @ name) s;
             s2 = (if S_ISDIR (st_mode sb) \<and> name \<noteq> ''.'' \<and> name \<noteq> ''..''
                   then put ''/'' s1 else s1)
         in endl Entry s2))"

definition list_file :: "os \<Rightarrow> string \<Rightarrow> string \<Rightarrow> bool \<Rightarrow> state \<Rightarrow> stop + state" where
  "list_file sys pathandname name list_long s =
     (if count_only s then Inr (s\<lparr>file_count := file_count s + 1\<rparr>)
      else if list_long then
        (case lstat sys pathandname of
           Inl e \<Rightarrow> Inr (handle_error sys ''cannot access'' pathandname e s)
         | Inr sb \<Rightarrow>
            (let m = st_mode sb;
                 s = put (ftype_to_str m) s;
                 s = PRINT_PERM_CHAR m S_IRUSR ''r'' s;
                 s = PRINT_PERM_CHAR m S_IWUSR ''w'' s;
                 s = PRINT_PERM_CHAR m S_IXUSR ''x'' s;
                 s = PRINT_PERM_CHAR m S_IRGRP ''r'' s;
                 s = PRINT_PERM_CHAR m S_IWGRP ''w'' s;
                 s = PRINT_PERM_CHAR m S_IXGRP ''x'' s;
                 s = PRINT_PERM_CHAR m S_IROTH ''r'' s;
                 s = PRINT_PERM_CHAR m S_IWOTH ''w'' s;
                 s = PRINT_PERM_CHAR m S_IXOTH ''x'' s;
                 s = put ('' '' @ show_int (sint (st_nlink sb))) s;
                 s = print_owner sys sb s;
                 s = print_group sys sb s;
                 s = print_size sb s
             in case date_string sys (st_mtim sb) of
                  Inl e \<Rightarrow> Inl e
                | Inr mod_time \<Rightarrow>
                    Inr (print_name sys sb pathandname name (put ('' '' @ mod_time) s))))
      else
        (case test_file sys pathandname s of
           (False, s1) \<Rightarrow> Inr s1
         | (True, s1) \<Rightarrow>
            (let s2 = put name s1
             in case is_dir sys pathandname s2 of
                  (d, s3) \<Rightarrow>
                    Inr (endl Entry
                      (if d \<and> name \<noteq> ''.'' \<and> name \<noteq> ''..'' then put ''/'' s3 else s3)))))"

section \<open>Listing a directory\<close>

text \<open>
  The \<^verbatim>\<open>readdir\<close> loop of \<^verbatim>\<open>list_dir\<close>, over the names the stream yields. It
  carries the state and \<^verbatim>\<open>subdir_list\<close> (with \<^verbatim>\<open>subdir_count\<close> its length):
  \<^verbatim>\<open>fullpath\<close> is a buffer of 1024 bytes written by \<^verbatim>\<open>snprintf\<close>, a row of
  \<^verbatim>\<open>subdir_list\<close> holds 255 bytes and a terminator, and there are 1024 rows.
\<close>

fun scan :: "os \<Rightarrow> string \<Rightarrow> bool \<Rightarrow> bool \<Rightarrow> bool \<Rightarrow> string list
    \<Rightarrow> state \<times> string list \<Rightarrow> stop + state \<times> string list" where
  "scan sys dirname list_long list_all' recursive [] acc = Inr acc"
| "scan sys dirname list_long list_all' recursive (d_name # rest) (s, subdir_list) =
     (if \<not> list_all' \<and> (case d_name of [] \<Rightarrow> False | c # _ \<Rightarrow> c = CHR ''.'')
      then scan sys dirname list_long list_all' recursive rest (s, subdir_list)
      else
        (let fullpath = take 1023 (dirname @ ''/'' @ d_name)
         in case list_file sys fullpath d_name list_long s of
              Inl e \<Rightarrow> Inl e
            | Inr s1 \<Rightarrow>
               (if recursive then
                  (if d_name = ''.'' \<or> d_name = ''..''
                   then scan sys dirname list_long list_all' recursive rest (s1, subdir_list)
                   else
                     (case lstat sys fullpath of
                        Inr sb \<Rightarrow>
                          if S_ISDIR (st_mode sb) \<and> length subdir_list < 1024
                          then scan sys dirname list_long list_all' recursive rest
                                 (s1, subdir_list @ [take 255 fullpath])
                          else scan sys dirname list_long list_all' recursive rest
                                 (s1, subdir_list)
                      | Inl e \<Rightarrow>
                          scan sys dirname list_long list_all' recursive rest (s1, subdir_list)))
                else scan sys dirname list_long list_all' recursive rest (s1, subdir_list))))"

text \<open>The loop over \<^verbatim>\<open>subdir_list\<close>: a blank line, then the recursive call \<open>f\<close>.\<close>

primrec for_subdirs :: "(string \<Rightarrow> state \<Rightarrow> stop + state) \<Rightarrow> string list \<Rightarrow> state
    \<Rightarrow> stop + state" where
  "for_subdirs f [] s = Inr s"
| "for_subdirs f (d # ds) s =
     (case f d (endl Blank s) of Inl e \<Rightarrow> Inl e | Inr s1 \<Rightarrow> for_subdirs f ds s1)"

text \<open>
  \<^verbatim>\<open>list_dir\<close> calls itself for as long as it finds directories, and nothing in the
  code bounds the depth: a stored path that was cut to 255 bytes can name a directory the
  walk has already entered. The first argument bounds the depth of the calls;
  \<open>Inl Too_deep\<close> says that the bound was reached.
\<close>

fun list_dir :: "nat \<Rightarrow> os \<Rightarrow> string \<Rightarrow> bool \<Rightarrow> bool \<Rightarrow> bool \<Rightarrow> state \<Rightarrow> stop + state" where
  "list_dir 0 sys dirname list_long list_all' recursive s = Inl Too_deep"
| "list_dir (Suc n) sys dirname list_long list_all' recursive s =
     (let s1 = (if recursive then endl Header (put (dirname @ '':'') s) else s)
      in case opendir sys dirname of
           Inl e \<Rightarrow> Inr (handle_error sys ''Error opening directory'' dirname e s1)
         | Inr entries \<Rightarrow>
             (case scan sys dirname list_long list_all' recursive entries (s1, []) of
                Inl e \<Rightarrow> Inl e
              | Inr (s2, subdir_list) \<Rightarrow>
                  if recursive \<and> 0 < length subdir_list
                  then for_subdirs (\<lambda>d. list_dir n sys d list_long list_all' recursive)
                         subdir_list s2
                  else Inr s2))"

section \<open>The driver\<close>

text \<open>
  \<^verbatim>\<open>main\<close> after option parsing: the flags are given, \<open>args\<close> are
  \<^verbatim>\<open>argv[optind..argc-1]\<close>. \<open>multi\<close> is \<^verbatim>\<open>argc - optind > 1\<close>, and
  \<^verbatim>\<open>index + 1 < argc\<close> says that arguments remain.
\<close>

fun main_loop :: "nat \<Rightarrow> os \<Rightarrow> bool \<Rightarrow> bool \<Rightarrow> bool \<Rightarrow> bool \<Rightarrow> string list \<Rightarrow> state
    \<Rightarrow> stop + state" where
  "main_loop fuel sys list_long list_all' recursive multi [] s = Inr s"
| "main_loop fuel sys list_long list_all' recursive multi (arg # rest) s =
     (case test_file sys arg s of
        (False, s1) \<Rightarrow> main_loop fuel sys list_long list_all' recursive multi rest s1
      | (True, s1) \<Rightarrow>
         (case is_dir sys arg s1 of
            (True, s2) \<Rightarrow>
              (let s3 = (if multi then endl Header (put (arg @ '':'') s2) else s2)
               in case list_dir fuel sys arg list_long list_all' recursive s3 of
                    Inl e \<Rightarrow> Inl e
                  | Inr s4 \<Rightarrow>
                      main_loop fuel sys list_long list_all' recursive multi rest
                        (if rest \<noteq> [] then endl Blank s4 else s4))
          | (False, s2) \<Rightarrow>
              (case list_file sys arg arg list_long s2 of
                 Inl e \<Rightarrow> Inl e
               | Inr s3 \<Rightarrow> main_loop fuel sys list_long list_all' recursive multi rest s3)))"

definition init :: "bool \<Rightarrow> bool \<Rightarrow> state" where
  "init c h = \<lparr>err_code = 0, file_count = 0, count_only = c, human_readable = h,
               out = [], pending = []\<rparr>"

definition main :: "nat \<Rightarrow> os \<Rightarrow> bool \<Rightarrow> bool \<Rightarrow> bool \<Rightarrow> bool \<Rightarrow> bool \<Rightarrow> string list
    \<Rightarrow> stop + state" where
  "main fuel sys list_long list_all' recursive c h args =
     (case (if args = []
            then list_dir fuel sys ''.'' list_long list_all' recursive
                   (if recursive then endl Header (put ''.:'' (init c h)) else init c h)
            else main_loop fuel sys list_long list_all' recursive (1 < length args) args
                   (init c h)) of
        Inl e \<Rightarrow> Inl e
      | Inr s \<Rightarrow>
          Inr (if count_only s then endl Total (put (show_int (sint (file_count s))) s) else s))"

text \<open>The status the process exits with: \<^verbatim>\<open>exit(err_code)\<close> keeps the low eight bits.\<close>

definition exit_status :: "state \<Rightarrow> 32 word" where
  "exit_status s = err_code s AND 255"

section \<open>A small file system for concrete runs\<close>

text \<open>
  A tree \<^verbatim>\<open>root/{a.txt, sub/{b.txt}}\<close> below the current directory, a directory
  \<^verbatim>\<open>locked\<close> that cannot be opened, a directory \<^verbatim>\<open>noexec\<close> that can be read but
  not searched (its entry \<^verbatim>\<open>x\<close> cannot be examined), and a file \<^verbatim>\<open>orphan\<close> whose
  owner and group have no name, and a file \<^verbatim>\<open>far\<close> whose modification time lies in a
  year that does not fit an \<^verbatim>\<open>int\<close>. The path \<^verbatim>\<open>root/a.txt/x\<close> runs through a
  regular file. \<^verbatim>\<open>localtime\<close> converts the times that glibc converts (to a value that
  does not matter here), and \<^verbatim>\<open>strftime\<close> returns the format it is given. The clock
  stands at 1700000000 seconds and half a second.
\<close>

definition dir_stat :: stat where
  "dir_stat = \<lparr>st_mode = 16877, st_nlink = 2, st_uid = 1000, st_gid = 1000,
               st_size = 4096, st_mtim = \<lparr>tv_sec = 1699827200, tv_nsec = 0\<rparr>\<rparr>"

definition reg_stat :: stat where
  "reg_stat = \<lparr>st_mode = 33188, st_nlink = 1, st_uid = 1000, st_gid = 1000,
               st_size = 1536, st_mtim = \<lparr>tv_sec = 1699827200, tv_nsec = 0\<rparr>\<rparr>"

definition orphan_stat :: stat where
  "orphan_stat = \<lparr>st_mode = 33188, st_nlink = 1, st_uid = 4242, st_gid = 4243,
                  st_size = 0, st_mtim = \<lparr>tv_sec = 1665440000, tv_nsec = 0\<rparr>\<rparr>"

definition far_stat :: stat where
  "far_stat = \<lparr>st_mode = 33188, st_nlink = 1, st_uid = 1000, st_gid = 1000,
               st_size = 0, st_mtim = \<lparr>tv_sec = 4611686018427387904, tv_nsec = 0\<rparr>\<rparr>"

definition demo_localtime :: "64 word \<Rightarrow> tm option" where
  "demo_localtime t =
     (if - 67768040609740800 \<le> sint t \<and> sint t \<le> 67767976233532799
      then Some \<lparr>tm_sec = 0, tm_min = 0, tm_hour = 0, tm_mday = 1, tm_mon = 0, tm_year = 70,
                  tm_wday = 4, tm_yday = 0, tm_isdst = 0\<rparr>
      else None)"

definition demo_lstat :: "string \<Rightarrow> errno + stat" where
  "demo_lstat p =
     (if p = ''.'' \<or> p = ''root'' \<or> p = ''root/sub'' \<or> p = ''./root'' \<or> p = ''./root/sub''
         \<or> p = ''locked'' \<or> p = ''noexec''
      then Inr dir_stat
      else if p = ''root/a.txt'' \<or> p = ''root/sub/b.txt'' \<or> p = ''./root/a.txt''
         \<or> p = ''./root/sub/b.txt''
      then Inr reg_stat
      else if p = ''orphan'' then Inr orphan_stat
      else if p = ''far'' then Inr far_stat
      else if p = ''root/a.txt/x'' then Inl ENOTDIR
      else if p = ''noexec/x'' then Inl EACCES
      else Inl ENOENT)"

definition demo_opendir :: "string \<Rightarrow> errno + string list" where
  "demo_opendir p =
     (if p = ''.'' then Inr [''.'', ''..'', ''root'']
      else if p = ''root'' \<or> p = ''./root'' then Inr [''.'', ''..'', ''a.txt'', ''sub'']
      else if p = ''root/sub'' \<or> p = ''./root/sub'' then Inr [''.'', ''..'', ''b.txt'']
      else if p = ''noexec'' then Inr [''.'', ''..'', ''x'']
      else if p = ''locked'' then Inl EACCES
      else Inl ENOENT)"

definition demo_os :: os where
  "demo_os = \<lparr>lstat = demo_lstat, opendir = demo_opendir,
     getpwuid = (\<lambda>u. if u = 1000 then Some ''alice'' else None),
     getgrgid = (\<lambda>g. if g = 1000 then Some ''staff'' else None),
     readlink = (\<lambda>p. None),
     now = \<lparr>tv_sec = 1700000000, tv_nsec = 500000000\<rparr>,
     localtime = demo_localtime,
     strftime = (\<lambda>fmt t. fmt),
     strerror = (\<lambda>e. if e = ENOENT then ''No such file or directory''
                      else if e = EACCES then ''Permission denied''
                      else if e = ENOTDIR then ''Not a directory''
                      else ''Input/output error'')\<rparr>"

text \<open>
  A directory whose name has 250 bytes, with one subdirectory \<^verbatim>\<open>bbbbbbbbbb\<close>: the path
  of the subdirectory has 261 bytes, and no path but these two exists.
\<close>

definition long_dir :: string where
  "long_dir = replicate 250 CHR ''a''"

definition long_os :: os where
  "long_os = demo_os\<lparr>
     lstat := (\<lambda>p. if p = long_dir \<or> p = long_dir @ ''/bbbbbbbbbb''
                    then Inr dir_stat else Inl ENOENT),
     opendir := (\<lambda>p. if p = long_dir then Inr [''.'', ''..'', ''bbbbbbbbbb'']
                      else if p = long_dir @ ''/bbbbbbbbbb'' then Inr [''.'', ''..'']
                      else Inl ENOENT)\<rparr>"

section \<open>Notions used to state the properties\<close>

text \<open>
  The text of a long-format line for an entry with metadata \<open>sb\<close>, field by field:
  type, nine permission characters, link count, owner, group, size, date, name. Owner
  and group show the name when the lookup succeeds and the numeric id otherwise;
  \<open>mod_time\<close> is the date as \<^verbatim>\<open>date_string\<close> formatted it.
  \<open>lookup_bits\<close> is what a long listing adds to the status.
\<close>

definition long_text :: "os \<Rightarrow> stat \<Rightarrow> string \<Rightarrow> string \<Rightarrow> bool \<Rightarrow> string \<Rightarrow> string" where
  "long_text sys sb p nm hr mod_time =
     ftype_to_str (st_mode sb)
     @ (if st_mode sb AND S_IRUSR \<noteq> 0 then ''r'' else ''-'')
     @ (if st_mode sb AND S_IWUSR \<noteq> 0 then ''w'' else ''-'')
     @ (if st_mode sb AND S_IXUSR \<noteq> 0 then ''x'' else ''-'')
     @ (if st_mode sb AND S_IRGRP \<noteq> 0 then ''r'' else ''-'')
     @ (if st_mode sb AND S_IWGRP \<noteq> 0 then ''w'' else ''-'')
     @ (if st_mode sb AND S_IXGRP \<noteq> 0 then ''x'' else ''-'')
     @ (if st_mode sb AND S_IROTH \<noteq> 0 then ''r'' else ''-'')
     @ (if st_mode sb AND S_IWOTH \<noteq> 0 then ''w'' else ''-'')
     @ (if st_mode sb AND S_IXOTH \<noteq> 0 then ''x'' else ''-'')
     @ '' '' @ show_int (sint (st_nlink sb))
     @ '' '' @ pad_right 8 (case getpwuid sys (st_uid sb) of
                              Some n \<Rightarrow> take 32 n | None \<Rightarrow> show_int (sint (st_uid sb)))
     @ '' '' @ pad_right 8 (case getgrgid sys (st_gid sb) of
                              Some n \<Rightarrow> take 32 n | None \<Rightarrow> show_int (sint (st_gid sb)))
     @ '' '' @ (if hr then pad_left 5 (format_size_human (st_size sb) 16)
                else pad_left 8 (show_int (sint (st_size sb))))
     @ '' '' @ mod_time
     @ '' '' @ nm
     @ (if S_ISLNK (st_mode sb)
        then (case readlink sys p of Some target \<Rightarrow> '' -> '' @ take 1023 target | None \<Rightarrow> '' -> ?'')
        else if S_ISDIR (st_mode sb) \<and> nm \<noteq> ''.'' \<and> nm \<noteq> ''..'' then ''/'' else [])"

definition lookup_bits :: "os \<Rightarrow> stat \<Rightarrow> 32 word" where
  "lookup_bits sys sb =
     (if getpwuid sys (st_uid sb) = None \<or> getgrgid sys (st_gid sb) = None then 96 else 0)"

text \<open>
  The pass over a directory: an entry is hidden when its name starts with a dot and
  \<^verbatim>\<open>-a\<close> is not given; \<open>fullpath\<close> is what \<^verbatim>\<open>snprintf\<close> leaves in the buffer of
  1024 bytes; \<open>found\<close> are the paths the pass stores for the recursion, before the limit
  of 1024 rows applies; \<open>list_entries\<close> lists the given names in order.
\<close>

definition hidden :: "bool \<Rightarrow> string \<Rightarrow> bool" where
  "hidden la nm \<longleftrightarrow> \<not> la \<and> (case nm of [] \<Rightarrow> False | c # _ \<Rightarrow> c = CHR ''.'')"

definition fullpath :: "string \<Rightarrow> string \<Rightarrow> string" where
  "fullpath d nm = take 1023 (d @ ''/'' @ nm)"

definition is_subdir :: "os \<Rightarrow> string \<Rightarrow> string \<Rightarrow> bool" where
  "is_subdir sys d nm \<longleftrightarrow> nm \<noteq> ''.'' \<and> nm \<noteq> ''..''
     \<and> (case lstat sys (fullpath d nm) of Inr sb \<Rightarrow> S_ISDIR (st_mode sb) | Inl e \<Rightarrow> False)"

definition visible :: "bool \<Rightarrow> string list \<Rightarrow> string list" where
  "visible la es = filter (\<lambda>nm. \<not> hidden la nm) es"

definition found :: "os \<Rightarrow> string \<Rightarrow> bool \<Rightarrow> string list \<Rightarrow> string list" where
  "found sys d la es = map (\<lambda>nm. take 255 (fullpath d nm)) (filter (is_subdir sys d) (visible la es))"

primrec list_entries :: "os \<Rightarrow> string \<Rightarrow> bool \<Rightarrow> string list \<Rightarrow> state \<Rightarrow> stop + state" where
  "list_entries sys d ll [] s = Inr s"
| "list_entries sys d ll (nm # es) s =
     (case list_file sys (fullpath d nm) nm ll s of
        Inl e \<Rightarrow> Inl e | Inr s1 \<Rightarrow> list_entries sys d ll es s1)"

text \<open>
  A per-entry line is the line \<^verbatim>\<open>list_file\<close> prints for an entry: the entry itself,
  or the \<^verbatim>\<open>cannot access\<close> diagnostic. \<open>twin a b sc sb\<close> relates a count-only run
  (from \<open>a\<close> to \<open>sc\<close>) and the same run without count-only (from \<open>b\<close> to \<open>sb\<close>): the
  first writes what the second writes less the per-entry lines, and counts them.
  \<open>mtwin\<close> is the weaker relation that holds over the loop of \<^verbatim>\<open>main\<close>, where \<open>m\<close>
  targets that failed \<^verbatim>\<open>lstat\<close> put their diagnostic into both outputs (these are
  the only per-entry lines of the count-only run, and its other lines are those of the
  listing run);
  \<open>missing\<close> counts such targets. \<open>beside g R\<close> relates the results of the two runs:
  both stop for the same reason or both return, in states related by \<open>R\<close>; where \<open>g\<close>
  holds (the listing run is in long mode) the listing run may also have been killed.
\<close>

definition entry_line :: "line \<Rightarrow> bool" where
  "entry_line l \<longleftrightarrow> fst l = Entry \<or> (fst l = Diag \<and> take 18 (snd l) = ''ls: cannot access '')"

definition twin :: "state \<Rightarrow> state \<Rightarrow> state \<Rightarrow> state \<Rightarrow> bool" where
  "twin a b sc sb \<longleftrightarrow>
     count_only sc \<and> \<not> count_only sb \<and> pending sc = [] \<and> pending sb = []
     \<and> (\<exists>Y. out sb = out b @ Y \<and> out sc = out a @ filter (\<lambda>l. \<not> entry_line l) Y
            \<and> file_count sc = file_count a + of_nat (length (filter entry_line Y)))"

definition mtwin :: "state \<Rightarrow> state \<Rightarrow> nat \<Rightarrow> state \<Rightarrow> state \<Rightarrow> bool" where
  "mtwin a b m sc sb \<longleftrightarrow>
     count_only sc \<and> \<not> count_only sb \<and> pending sc = [] \<and> pending sb = []
     \<and> (\<exists>Y Z. out sb = out b @ Y \<and> out sc = out a @ Z
            \<and> filter (\<lambda>l. fst l = Entry) Z = []
            \<and> filter (\<lambda>l. \<not> entry_line l) Z = filter (\<lambda>l. \<not> entry_line l) Y
            \<and> length (filter entry_line Z) = m
            \<and> file_count sc + of_nat m = file_count a + of_nat (length (filter entry_line Y)))"

definition beside :: "bool \<Rightarrow> (state \<Rightarrow> state \<Rightarrow> bool) \<Rightarrow> stop + state \<Rightarrow> stop + state \<Rightarrow> bool" where
  "beside g R rc rb \<longleftrightarrow> (g \<and> rb = Inl Crashed) \<or> rel_sum (=) R rc rb"

definition missing :: "os \<Rightarrow> string list \<Rightarrow> nat" where
  "missing sys args = length (filter (\<lambda>a. isl (lstat sys a)) args)"

text \<open>
  \<open>bits_kept a b\<close>: every bit set in \<open>a\<close> is set in \<open>b\<close>. \<open>decimal\<close> reads a string
  of decimal digits.
\<close>

definition bits_kept :: "32 word \<Rightarrow> 32 word \<Rightarrow> bool" where
  "bits_kept a b \<longleftrightarrow> a OR b = b"

definition decimal :: "string \<Rightarrow> nat" where
  "decimal t = foldl (\<lambda>a c. 10 * a + (of_char c - 48)) 0 t"

text \<open>
  The number of entries a run hands to \<^verbatim>\<open>list_file\<close>, read off the file system alone:
  \<open>walk_count\<close> for the walk of one directory with the given depth bound (every visible
  entry, and those of the subdirectories the walk enters), \<open>handed\<close> for the targets of a
  run (nothing for a target that fails \<^verbatim>\<open>lstat\<close>, one for a target that is no
  directory), \<open>handed_main\<close> for the run.
\<close>

fun walk_count :: "nat \<Rightarrow> os \<Rightarrow> string \<Rightarrow> bool \<Rightarrow> bool \<Rightarrow> nat" where
  "walk_count 0 sys d la rec = 0"
| "walk_count (Suc n) sys d la rec =
     (case opendir sys d of
        Inl e \<Rightarrow> 0
      | Inr es \<Rightarrow>
          length (visible la es)
          + (if rec then sum_list (map (\<lambda>p. walk_count n sys p la rec)
                                   (take 1024 (found sys d la es)))
             else 0))"

definition handed :: "nat \<Rightarrow> os \<Rightarrow> bool \<Rightarrow> bool \<Rightarrow> string list \<Rightarrow> nat" where
  "handed n sys la rec args =
     sum_list (map (\<lambda>a. case lstat sys a of
                          Inl e \<Rightarrow> 0
                        | Inr sb \<Rightarrow> if S_ISDIR (st_mode sb) then walk_count n sys a la rec else 1)
                   args)"

definition handed_main :: "nat \<Rightarrow> os \<Rightarrow> bool \<Rightarrow> bool \<Rightarrow> string list \<Rightarrow> nat" where
  "handed_main n sys la rec args =
     (if args = [] then walk_count n sys ''.'' la rec else handed n sys la rec args)"

text \<open>
  \<open>wrote k s s'\<close>: from \<open>s\<close> to \<open>s'\<close> a run that is not count-only completed
  lines of which \<open>k\<close> are per-entry lines, and left no line open.
\<close>

definition wrote :: "nat \<Rightarrow> state \<Rightarrow> state \<Rightarrow> bool" where
  "wrote k s s' \<longleftrightarrow>
     \<not> count_only s' \<and> pending s' = []
     \<and> (\<exists>Y. out s' = out s @ Y \<and> length (filter entry_line Y) = k)"

text \<open>
  \<open>shallow n\<close>: the walk of a directory stays within depth \<open>n\<close>, that is, the calls of
  \<^verbatim>\<open>list_dir\<close> nest at most \<open>n\<close> deep (a walk that is not recursive has depth 1).
  \<open>shallow_main\<close> says so of every directory a run walks.
\<close>

fun shallow :: "nat \<Rightarrow> os \<Rightarrow> string \<Rightarrow> bool \<Rightarrow> bool \<Rightarrow> bool" where
  "shallow 0 sys d la rec = False"
| "shallow (Suc n) sys d la rec =
     (case opendir sys d of
        Inl e \<Rightarrow> True
      | Inr es \<Rightarrow>
          if rec then list_all (\<lambda>p. shallow n sys p la rec) (take 1024 (found sys d la es))
          else True)"

definition shallow_main :: "nat \<Rightarrow> os \<Rightarrow> bool \<Rightarrow> bool \<Rightarrow> string list \<Rightarrow> bool" where
  "shallow_main n sys la rec args =
     (if args = [] then shallow n sys ''.'' la rec
      else list_all (\<lambda>a. case lstat sys a of
                            Inl e \<Rightarrow> True
                          | Inr sb \<Rightarrow> if S_ISDIR (st_mode sb) then shallow n sys a la rec
                                     else True) args)"

section \<open>Facts about the model\<close>

subsection \<open>The state after a print or a recorded error\<close>

lemma put_fields [simp]:
  "err_code (put t s) = err_code s" "file_count (put t s) = file_count s"
  "count_only (put t s) = count_only s" "human_readable (put t s) = human_readable s"
  "out (put t s) = out s" "pending (put t s) = pending s @ t"
  by (simp_all add: put_def)

lemma endl_fields [simp]:
  "err_code (endl k s) = err_code s" "file_count (endl k s) = file_count s"
  "count_only (endl k s) = count_only s" "human_readable (endl k s) = human_readable s"
  "out (endl k s) = out s @ [(k, pending s)]" "pending (endl k s) = []"
  by (simp_all add: endl_def)

lemma handle_error_fields [simp]:
  "err_code (handle_error sys w p e s) =
     err_code s OR (if e = ENOENT then 72 else if e = EACCES \<or> e = EPERM then 80 else 96)"
  "file_count (handle_error sys w p e s) = file_count s"
  "count_only (handle_error sys w p e s) = count_only s"
  "human_readable (handle_error sys w p e s) = human_readable s"
  "out (handle_error sys w p e s) =
     out s @ [(Diag, pending s @ ''ls: '' @ w @ '' '' @ p @ '': '' @ strerror sys e)]"
  "pending (handle_error sys w p e s) = []"
  by (simp_all add: handle_error_def PRINT_ERROR_def Let_def or.assoc)

subsection \<open>The choice of the date format\<close>

text \<open>Subtracting a signed value that is not larger, read as unsigned.\<close>

lemma uint_diff_sint:
  fixes a b :: "64 word"
  assumes "sint b \<le> sint a"
  shows "uint (a - b) = sint a - sint b"
proof -
  have "uint (a - b) = (uint a - uint b) mod 2 ^ 64"
    by (simp add: uint_word_ariths)
  also have "\<dots> = (sint a mod 2 ^ 64 - sint b mod 2 ^ 64) mod 2 ^ 64"
    by (simp add: uint_sint take_bit_eq_mod)
  also have "\<dots> = (sint a - sint b) mod 2 ^ 64"
    by (simp add: mod_diff_eq)
  also have "\<dots> = sint a - sint b"
  proof -
    have "sint a < 2 ^ 63" "- (2 ^ 63) \<le> sint b"
      using sint_lt [of a] sint_ge [of b] by simp_all
    with assms show ?thesis by simp
  qed
  finally show ?thesis .
qed

lemma date_string_format:
  "date_string sys ts =
     strftime_at sys
       (if sint (tv_sec (now sys)) < sint (tv_sec ts)
           \<or> 31556952 \<le> sint (tv_sec (now sys)) - sint (tv_sec ts)
        then ''%b %e %Y'' else ''%b %e %H:%M'')
       (localtime sys (tv_sec ts))"
proof (cases "sint (tv_sec (now sys)) < sint (tv_sec ts)")
  case True
  then show ?thesis by (simp add: date_string_def word_sless_alt)
next
  case False
  then have "uint (tv_sec (now sys) - tv_sec ts) = sint (tv_sec (now sys)) - sint (tv_sec ts)"
    by (intro uint_diff_sint) simp
  then have "(tv_sec (now sys) - tv_sec ts < 31556952)
      = (sint (tv_sec (now sys)) - sint (tv_sec ts) < 31556952)"
    by (simp add: word_less_def)
  with False show ?thesis
    by (simp add: date_string_def word_sless_alt Let_def not_less)
qed

lemma date_string_cases:
  "date_string sys ts = Inl e \<longleftrightarrow> e = Crashed \<and> localtime sys (tv_sec ts) = None"
  "date_string sys ts = Inr t \<longleftrightarrow>
     (\<exists>v. localtime sys (tv_sec ts) = Some v
        \<and> t = strftime sys
            (if sint (tv_sec (now sys)) < sint (tv_sec ts)
                \<or> 31556952 \<le> sint (tv_sec (now sys)) - sint (tv_sec ts)
             then ''%b %e %Y'' else ''%b %e %H:%M'') v)"
  by (auto simp: date_string_format strftime_at_def split: option.splits)

subsection \<open>The state after listing one entry\<close>

lemma perm_fields [simp]:
  "err_code (PRINT_PERM_CHAR m k c s) = err_code s"
  "file_count (PRINT_PERM_CHAR m k c s) = file_count s"
  "count_only (PRINT_PERM_CHAR m k c s) = count_only s"
  "human_readable (PRINT_PERM_CHAR m k c s) = human_readable s"
  "out (PRINT_PERM_CHAR m k c s) = out s"
  "pending (PRINT_PERM_CHAR m k c s) = pending s @ (if m AND k \<noteq> 0 then c else ''-'')"
  by (simp_all add: PRINT_PERM_CHAR_def)

lemma print_owner_fields [simp]:
  "err_code (print_owner sys sb s) =
     (case getpwuid sys (st_uid sb) of Some n \<Rightarrow> err_code s | None \<Rightarrow> err_code s OR 96)"
  "file_count (print_owner sys sb s) = file_count s"
  "count_only (print_owner sys sb s) = count_only s"
  "human_readable (print_owner sys sb s) = human_readable s"
  "out (print_owner sys sb s) = out s"
  "pending (print_owner sys sb s) = pending s @ '' '' @ pad_right 8
     (case getpwuid sys (st_uid sb) of Some n \<Rightarrow> take 32 n | None \<Rightarrow> show_int (sint (st_uid sb)))"
  by (simp_all add: print_owner_def uname_for_uid_def Let_def split: option.split)

lemma print_group_fields [simp]:
  "err_code (print_group sys sb s) =
     (case getgrgid sys (st_gid sb) of Some n \<Rightarrow> err_code s | None \<Rightarrow> err_code s OR 96)"
  "file_count (print_group sys sb s) = file_count s"
  "count_only (print_group sys sb s) = count_only s"
  "human_readable (print_group sys sb s) = human_readable s"
  "out (print_group sys sb s) = out s"
  "pending (print_group sys sb s) = pending s @ '' '' @ pad_right 8
     (case getgrgid sys (st_gid sb) of Some n \<Rightarrow> take 32 n | None \<Rightarrow> show_int (sint (st_gid sb)))"
  by (simp_all add: print_group_def group_for_gid_def Let_def split: option.split)

lemma print_size_fields [simp]:
  "err_code (print_size sb s) = err_code s"
  "file_count (print_size sb s) = file_count s"
  "count_only (print_size sb s) = count_only s"
  "human_readable (print_size sb s) = human_readable s"
  "out (print_size sb s) = out s"
  "pending (print_size sb s) = pending s @ '' '' @
     (if human_readable s then pad_left 5 (format_size_human (st_size sb) 16)
      else pad_left 8 (show_int (sint (st_size sb))))"
  by (simp_all add: print_size_def)

lemma print_name_fields [simp]:
  "err_code (print_name sys sb p nm s) = err_code s"
  "file_count (print_name sys sb p nm s) = file_count s"
  "count_only (print_name sys sb p nm s) = count_only s"
  "human_readable (print_name sys sb p nm s) = human_readable s"
  "out (print_name sys sb p nm s) = out s @ [(Entry, pending s @ '' '' @ nm @
     (if S_ISLNK (st_mode sb)
      then (case readlink sys p of Some target \<Rightarrow> '' -> '' @ take 1023 target | None \<Rightarrow> '' -> ?'')
      else if S_ISDIR (st_mode sb) \<and> nm \<noteq> ''.'' \<and> nm \<noteq> ''..'' then ''/'' else []))]"
  "pending (print_name sys sb p nm s) = []"
  by (simp_all add: print_name_def Let_def split: option.split)

lemma list_file_count:
  "count_only s \<Longrightarrow> list_file sys p nm ll s = Inr (s\<lparr>file_count := file_count s + 1\<rparr>)"
  by (simp add: list_file_def)

lemma list_file_long_fail:
  "\<not> count_only s \<Longrightarrow> lstat sys p = Inl e \<Longrightarrow>
   list_file sys p nm True s = Inr (handle_error sys ''cannot access'' p e s)"
  by (simp add: list_file_def)

lemma list_file_long_crash:
  "\<not> count_only s \<Longrightarrow> lstat sys p = Inr sb \<Longrightarrow> date_string sys (st_mtim sb) = Inl e \<Longrightarrow>
   list_file sys p nm True s = Inl e"
  by (simp add: list_file_def Let_def)

lemma list_file_long_out:
  assumes "\<not> count_only s" "lstat sys p = Inr sb" "date_string sys (st_mtim sb) = Inr mt"
  shows "\<exists>s'. list_file sys p nm True s = Inr s'
     \<and> out s' = out s @ [(Entry, pending s @ long_text sys sb p nm (human_readable s) mt)]
     \<and> pending s' = []
     \<and> err_code s' = err_code s OR lookup_bits sys sb
     \<and> file_count s' = file_count s
     \<and> count_only s' = count_only s \<and> human_readable s' = human_readable s"
  using assms
  by (simp add: list_file_def Let_def long_text_def lookup_bits_def or.assoc split: option.split)

lemma list_file_bare_fail:
  "\<not> count_only s \<Longrightarrow> lstat sys p = Inl e \<Longrightarrow>
   list_file sys p nm False s = Inr (handle_error sys ''cannot access'' p e s)"
  by (simp add: list_file_def test_file_def)

lemma list_file_bare_ok:
  "\<not> count_only s \<Longrightarrow> lstat sys p = Inr sb \<Longrightarrow>
   list_file sys p nm False s =
     Inr (endl Entry (put (nm @ (if S_ISDIR (st_mode sb) \<and> nm \<noteq> ''.'' \<and> nm \<noteq> ''..''
                                then ''/'' else [])) s))"
  by (auto simp: list_file_def test_file_def is_dir_def put_def endl_def Let_def)

lemma list_file_stop:
  "list_file sys p nm ll s = Inl e \<Longrightarrow> e = Crashed \<and> ll \<and> \<not> count_only s"
  by (auto simp: list_file_def test_file_def is_dir_def Let_def date_string_cases
      split: if_splits sum.splits)

lemma list_file_flags:
  "list_file sys p nm ll s = Inr s' \<Longrightarrow>
   count_only s' = count_only s \<and> human_readable s' = human_readable s"
  by (auto simp: list_file_def test_file_def is_dir_def Let_def split: if_splits sum.splits)

subsection \<open>The pass over a directory, in closed form\<close>

text \<open>
  The loop over the names of a directory lists the visible ones in order, stopping where
  the listing of one is killed, and, in recursive mode, collects the first 1024 stored
  paths of subdirectories; what it collects does not depend on what it prints.
\<close>

lemma scan_Cons:
  "scan sys d ll la rec (nm # es) (s, L) =
     (if hidden la nm then scan sys d ll la rec es (s, L)
      else case list_file sys (fullpath d nm) nm ll s of
             Inl e \<Rightarrow> Inl e
           | Inr s1 \<Rightarrow>
               scan sys d ll la rec es
                 (s1, if rec \<and> is_subdir sys d nm \<and> length L < 1024
                      then L @ [take 255 (fullpath d nm)] else L))"
  by (simp add: hidden_def fullpath_def is_subdir_def Let_def split: sum.split)

lemma found_Cons:
  "found sys d la (nm # es) =
     (if \<not> hidden la nm \<and> is_subdir sys d nm then take 255 (fullpath d nm) # found sys d la es
      else found sys d la es)"
  by (simp add: found_def visible_def)

lemma scan_closed:
  "length L \<le> 1024 \<Longrightarrow> scan sys d ll la rec es (s, L) =
     (case list_entries sys d ll (visible la es) s of
        Inl e \<Rightarrow> Inl e
      | Inr s1 \<Rightarrow> Inr (s1, if rec then L @ take (1024 - length L) (found sys d la es) else L))"
proof (induction es arbitrary: s L)
  case Nil
  show ?case by (simp add: visible_def found_def)
next
  case (Cons nm es)
  show ?case
  proof (cases "hidden la nm")
    case True
    with Cons.IH [OF Cons.prems] show ?thesis
      by (simp add: scan_Cons visible_def found_Cons split: sum.split del: scan.simps)
  next
    case False
    show ?thesis
    proof (cases "list_file sys (fullpath d nm) nm ll s")
      case (Inl e)
      with False show ?thesis by (simp add: scan_Cons visible_def del: scan.simps)
    next
      case (Inr s1)
      let ?L = "if rec \<and> is_subdir sys d nm \<and> length L < 1024
                then L @ [take 255 (fullpath d nm)] else L"
      have len: "length ?L \<le> 1024" using Cons.prems by simp
      have e: "(if rec then ?L @ take (1024 - length ?L) (found sys d la es) else ?L)
          = (if rec then L @ take (1024 - length L) (found sys d la (nm # es)) else L)"
        using False Cons.prems by (auto simp: found_Cons take_Cons')
      have "scan sys d ll la rec (nm # es) (s, L) = scan sys d ll la rec es (s1, ?L)"
        using Inr False by (simp add: scan_Cons del: scan.simps)
      also have "\<dots> = (case list_entries sys d ll (visible la es) s1 of
            Inl e \<Rightarrow> Inl e
          | Inr s2 \<Rightarrow> Inr (s2, if rec then ?L @ take (1024 - length ?L) (found sys d la es)
                               else ?L))"
        by (rule Cons.IH [OF len])
      also have "\<dots> = (case list_entries sys d ll (visible la es) s1 of
            Inl e \<Rightarrow> Inl e
          | Inr s2 \<Rightarrow> Inr (s2, if rec then L @ take (1024 - length L) (found sys d la (nm # es))
                               else L))"
        by (subst e) (rule refl)
      also have "\<dots> = (case list_entries sys d ll (visible la (nm # es)) s of
            Inl e \<Rightarrow> Inl e
          | Inr s2 \<Rightarrow> Inr (s2, if rec then L @ take (1024 - length L) (found sys d la (nm # es))
                               else L))"
        using Inr False by (simp add: visible_def)
      finally show ?thesis .
    qed
  qed
qed

lemma list_dir_Suc:
  "list_dir (Suc n) sys d ll la rec s =
     (case opendir sys d of
        Inl e \<Rightarrow> Inr (handle_error sys ''Error opening directory'' d e
                   (if rec then endl Header (put (d @ '':'') s) else s))
      | Inr es \<Rightarrow>
          (case list_entries sys d ll (visible la es)
                  (if rec then endl Header (put (d @ '':'') s) else s) of
             Inl e \<Rightarrow> Inl e
           | Inr s2 \<Rightarrow>
               for_subdirs (\<lambda>p. list_dir n sys p ll la rec)
                 (if rec then take 1024 (found sys d la es) else []) s2))"
proof (cases "opendir sys d")
  case (Inl e)
  then show ?thesis by (simp add: Let_def)
next
  case (Inr es)
  have sc: "scan sys d ll la rec es (if rec then endl Header (put (d @ '':'') s) else s, []) =
     (case list_entries sys d ll (visible la es)
             (if rec then endl Header (put (d @ '':'') s) else s) of
        Inl e \<Rightarrow> Inl e
      | Inr s1 \<Rightarrow> Inr (s1, if rec then take 1024 (found sys d la es) else []))"
    using scan_closed [of "[]" sys d ll la rec es] by (simp split: sum.split)
  show ?thesis
  proof (cases "list_entries sys d ll (visible la es)
             (if rec then endl Header (put (d @ '':'') s) else s)")
    case (Inl e)
    with Inr sc show ?thesis by (simp add: Let_def)
  next
    case r: (Inr s2)
    with Inr sc show ?thesis
      by (cases "take 1024 (found sys d la es) = []") (simp_all add: Let_def)
  qed
qed

declare list_dir.simps(2) [simp del]

subsection \<open>Two runs side by side\<close>

lemma beside_Inr: "R a b \<Longrightarrow> beside g R (Inr a) (Inr b)"
  by (simp add: beside_def)

lemma beside_mono:
  "beside g R rc rb \<Longrightarrow> (\<And>a b. R a b \<Longrightarrow> R' a b) \<Longrightarrow> beside g R' rc rb"
  by (cases rc; cases rb) (auto simp: beside_def)

lemma beside_bind:
  assumes "beside g R rc rb" and "\<And>sc sb. R sc sb \<Longrightarrow> beside g R' (F sc) (G sb)"
  shows "beside g R' (case rc of Inl e \<Rightarrow> Inl e | Inr s \<Rightarrow> F s)
                     (case rb of Inl e \<Rightarrow> Inl e | Inr s \<Rightarrow> G s)"
proof (cases rb)
  case (Inl e)
  with assms(1) show ?thesis by (cases rc) (auto simp: beside_def)
next
  case b: (Inr sb)
  with assms(1) obtain sc where sc: "rc = Inr sc" "R sc sb"
    by (cases rc) (auto simp: beside_def)
  from assms(2) [OF sc(2)] sc(1) b show ?thesis by simp
qed

lemma beside_exact: "beside False R rc rb \<longleftrightarrow> rel_sum (=) R rc rb"
  by (simp add: beside_def)

subsection \<open>A count-only walk beside the walk that lists\<close>

lemma twin_refl:
  "count_only a \<Longrightarrow> \<not> count_only b \<Longrightarrow> pending a = [] \<Longrightarrow> pending b = [] \<Longrightarrow> twin a b a b"
  by (simp add: twin_def)

lemma list_file_stop_time:
  assumes "list_file sys p nm ll s = Inl e"
  shows "e = Crashed \<and> ll \<and> \<not> count_only s \<and> (\<exists>t. localtime sys t = None)"
proof -
  from assms have "\<exists>ts. date_string sys ts = Inl e"
    by (auto simp: list_file_def test_file_def is_dir_def Let_def split: if_splits sum.splits)
  then have "\<exists>t. localtime sys t = None" by (auto simp: date_string_cases)
  with list_file_stop [OF assms] show ?thesis by simp
qed

lemma list_file_noncount:
  assumes "\<not> count_only s" "pending s = []"
  shows "(ll \<and> (\<exists>t. localtime sys t = None) \<and> list_file sys p nm ll s = Inl Crashed)
     \<or> (\<exists>s' l. list_file sys p nm ll s = Inr s' \<and> entry_line l \<and> out s' = out s @ [l]
           \<and> pending s' = [] \<and> file_count s' = file_count s \<and> \<not> count_only s')"
proof (cases "list_file sys p nm ll s")
  case (Inl e)
  with list_file_stop_time [OF Inl] show ?thesis by simp
next
  case r: (Inr s')
  show ?thesis
  proof (cases "lstat sys p")
    case (Inl e)
    with assms r show ?thesis
      by (cases ll) (auto simp: list_file_long_fail list_file_bare_fail entry_line_def)
  next
    case (Inr sb)
    show ?thesis
    proof (cases ll)
      case False
      with assms r Inr show ?thesis by (auto simp: list_file_bare_ok entry_line_def)
    next
      case True
      with assms(1) r Inr obtain mt where "date_string sys (st_mtim sb) = Inr mt"
        by (cases "date_string sys (st_mtim sb)") (auto simp: list_file_long_crash)
      from list_file_long_out [OF assms(1) Inr this, of nm] r True assms show ?thesis
        by (auto simp: entry_line_def)
    qed
  qed
qed

lemma twin_list_file:
  assumes "twin a b sc sb"
  shows "beside (ll' \<and> (\<exists>t. localtime sys t = None)) (twin a b)
           (list_file sys p nm ll sc) (list_file sys p nm ll' sb)"
proof -
  from assms obtain Y where c: "count_only sc" "\<not> count_only sb" "pending sc = []"
    "pending sb = []" and Y: "out sb = out b @ Y"
    "out sc = out a @ filter (\<lambda>l. \<not> entry_line l) Y"
    "file_count sc = file_count a + of_nat (length (filter entry_line Y))"
    unfolding twin_def by blast
  from list_file_noncount [OF c(2) c(4), of ll' sys p nm]
  show ?thesis
  proof
    assume "ll' \<and> (\<exists>t. localtime sys t = None) \<and> list_file sys p nm ll' sb = Inl Crashed"
    then show ?thesis by (auto simp: beside_def)
  next
    assume "\<exists>s' l. list_file sys p nm ll' sb = Inr s' \<and> entry_line l \<and> out s' = out sb @ [l]
           \<and> pending s' = [] \<and> file_count s' = file_count sb \<and> \<not> count_only s'"
    then obtain s' l where l: "list_file sys p nm ll' sb = Inr s'" "entry_line l"
      "out s' = out sb @ [l]" "pending s' = []" "\<not> count_only s'"
      by blast
    let ?c = "sc\<lparr>file_count := file_count sc + 1\<rparr>"
    have "out s' = out b @ (Y @ [l])" using l Y by simp
    moreover have "out ?c = out a @ filter (\<lambda>l. \<not> entry_line l) (Y @ [l])"
      using Y l by simp
    moreover have "file_count ?c = file_count a + of_nat (length (filter entry_line (Y @ [l])))"
      using Y l by simp
    ultimately have "twin a b ?c s'"
      unfolding twin_def using c l by auto
    with l(1) c(1) show ?thesis by (simp add: list_file_count beside_def)
  qed
qed

lemma twin_list_entries:
  "twin a b sc sb \<Longrightarrow>
   beside (ll' \<and> (\<exists>t. localtime sys t = None)) (twin a b)
     (list_entries sys d ll es sc) (list_entries sys d ll' es sb)"
proof (induction es arbitrary: sc sb)
  case Nil
  then show ?case by (simp add: beside_Inr)
next
  case (Cons nm es)
  show ?case
    unfolding list_entries.simps
    by (rule beside_bind [OF twin_list_file [OF Cons.prems]]) (rule Cons.IH)
qed

lemma twin_line:
  assumes "twin a b sc sb" "k = Header \<or> k = Blank"
  shows "twin a b (endl k (put t sc)) (endl k (put t sb))"
proof -
  from assms obtain Y where c: "count_only sc" "\<not> count_only sb" "pending sc = []"
    "pending sb = []" and Y: "out sb = out b @ Y"
    "out sc = out a @ filter (\<lambda>l. \<not> entry_line l) Y"
    "file_count sc = file_count a + of_nat (length (filter entry_line Y))"
    unfolding twin_def by blast
  have "\<not> entry_line (k, t)" using assms(2) by (auto simp: entry_line_def)
  then show ?thesis
    unfolding twin_def using c Y
    by (intro conjI exI [of _ "Y @ [(k, t)]"]) simp_all
qed

lemma twin_blank:
  "twin a b sc sb \<Longrightarrow> twin a b (endl Blank sc) (endl Blank sb)"
  using twin_line [of a b sc sb Blank "[]"] by (simp add: put_def)

lemma twin_open_error:
  assumes "twin a b sc sb"
  shows "twin a b (handle_error sys ''Error opening directory'' d e sc)
                  (handle_error sys ''Error opening directory'' d e sb)"
proof -
  from assms obtain Y where c: "count_only sc" "\<not> count_only sb" "pending sc = []"
    "pending sb = []" and Y: "out sb = out b @ Y"
    "out sc = out a @ filter (\<lambda>l. \<not> entry_line l) Y"
    "file_count sc = file_count a + of_nat (length (filter entry_line Y))"
    unfolding twin_def by blast
  let ?l = "(Diag, ''ls: '' @ ''Error opening directory'' @ '' '' @ d @ '': '' @ strerror sys e)"
  have "\<not> entry_line ?l" by (simp add: entry_line_def)
  then show ?thesis
    unfolding twin_def using c Y
    by (intro conjI exI [of _ "Y @ [?l]"]) simp_all
qed

lemma twin_for_subdirs:
  assumes "\<And>p sc sb. twin a b sc sb \<Longrightarrow> beside g (twin a b) (f p sc) (f' p sb)"
  shows "twin a b sc sb \<Longrightarrow> beside g (twin a b) (for_subdirs f ps sc) (for_subdirs f' ps sb)"
proof (induction ps arbitrary: sc sb)
  case Nil
  then show ?case by (simp add: beside_Inr)
next
  case (Cons p ps)
  show ?case
    unfolding for_subdirs.simps
    by (rule beside_bind [OF assms [OF twin_blank [OF Cons.prems]]]) (rule Cons.IH)
qed

lemma twin_list_dir:
  "twin a b sc sb \<Longrightarrow>
   beside (ll' \<and> (\<exists>t. localtime sys t = None)) (twin a b)
     (list_dir n sys d ll la rec sc) (list_dir n sys d ll' la rec sb)"
proof (induction n arbitrary: d sc sb)
  case 0
  show ?case by (simp add: beside_def)
next
  case (Suc n)
  let ?h = "\<lambda>s. if rec then endl Header (put (d @ '':'') s) else s"
  have h: "twin a b (?h sc) (?h sb)"
    using Suc.prems by (simp add: twin_line)
  show ?case
  proof (cases "opendir sys d")
    case (Inl e)
    with twin_open_error [OF h] show ?thesis by (simp add: list_dir_Suc beside_Inr)
  next
    case (Inr es)
    have "beside (ll' \<and> (\<exists>t. localtime sys t = None)) (twin a b)
        (case list_entries sys d ll (visible la es) (?h sc) of
           Inl e \<Rightarrow> Inl e
         | Inr s2 \<Rightarrow> for_subdirs (\<lambda>p. list_dir n sys p ll la rec)
                      (if rec then take 1024 (found sys d la es) else []) s2)
        (case list_entries sys d ll' (visible la es) (?h sb) of
           Inl e \<Rightarrow> Inl e
         | Inr s2 \<Rightarrow> for_subdirs (\<lambda>p. list_dir n sys p ll' la rec)
                      (if rec then take 1024 (found sys d la es) else []) s2)"
      by (rule beside_bind [OF twin_list_entries [OF h]]) (rule twin_for_subdirs [OF Suc.IH])
    with Inr show ?thesis by (simp add: list_dir_Suc)
  qed
qed

subsection \<open>The status only gains bits\<close>

lemma bits_kept_refl [simp]: "bits_kept a a"
  by (simp add: bits_kept_def)

lemma bits_kept_or [simp]: "bits_kept a (a OR m)"
  by (simp add: bits_kept_def or.assoc [symmetric])

lemma bits_kept_trans: "bits_kept a b \<Longrightarrow> bits_kept b c \<Longrightarrow> bits_kept a c"
  unfolding bits_kept_def by (metis or.assoc)

lemma bits_kept_bit: "bits_kept a b \<longleftrightarrow> (\<forall>i. bit a i \<longrightarrow> bit b i)"
proof
  assume k: "bits_kept a b"
  show "\<forall>i. bit a i \<longrightarrow> bit b i"
  proof (intro allI impI)
    fix i assume "bit a i"
    then have "bit (a OR b) i" by (simp add: bit_or_iff)
    with k show "bit b i" by (simp add: bits_kept_def)
  qed
next
  assume "\<forall>i. bit a i \<longrightarrow> bit b i"
  then show "bits_kept a b"
    unfolding bits_kept_def by (intro bit_eqI) (auto simp: bit_or_iff)
qed

lemma list_file_kept:
  assumes "list_file sys p nm ll s = Inr s'"
  shows "bits_kept (err_code s) (err_code s')"
proof (cases "count_only s")
  case True
  with assms show ?thesis by (auto simp: list_file_count)
next
  case False
  show ?thesis
  proof (cases "lstat sys p")
    case (Inl e)
    with False assms show ?thesis
      by (cases ll) (auto simp: list_file_long_fail list_file_bare_fail)
  next
    case (Inr sb)
    show ?thesis
    proof (cases ll)
      case False
      with \<open>\<not> count_only s\<close> Inr assms show ?thesis by (auto simp: list_file_bare_ok)
    next
      case True
      with False assms Inr obtain mt where "date_string sys (st_mtim sb) = Inr mt"
        by (cases "date_string sys (st_mtim sb)") (auto simp: list_file_long_crash)
      from list_file_long_out [OF False Inr this, of nm] assms True show ?thesis
        by auto
    qed
  qed
qed

lemma list_entries_kept:
  "list_entries sys d ll es s = Inr s' \<Longrightarrow> bits_kept (err_code s) (err_code s')"
proof (induction es arbitrary: s)
  case Nil
  then show ?case by simp
next
  case (Cons nm es)
  from Cons.prems obtain s1 where s1: "list_file sys (fullpath d nm) nm ll s = Inr s1"
    "list_entries sys d ll es s1 = Inr s'"
    by (auto split: sum.splits)
  show ?case
    by (rule bits_kept_trans [OF list_file_kept [OF s1(1)] Cons.IH [OF s1(2)]])
qed

lemma for_subdirs_kept:
  assumes "\<And>p s s'. f p s = Inr s' \<Longrightarrow> bits_kept (err_code s) (err_code s')"
  shows "for_subdirs f ps s = Inr s' \<Longrightarrow> bits_kept (err_code s) (err_code s')"
proof (induction ps arbitrary: s)
  case Nil
  then show ?case by simp
next
  case (Cons p ps)
  from Cons.prems obtain s1 where s1: "f p (endl Blank s) = Inr s1" "for_subdirs f ps s1 = Inr s'"
    by (auto split: sum.splits)
  from assms [OF s1(1)] have "bits_kept (err_code s) (err_code s1)" by simp
  then show ?case by (rule bits_kept_trans [OF _ Cons.IH [OF s1(2)]])
qed

lemma list_dir_kept:
  "list_dir n sys d ll la rec s = Inr s' \<Longrightarrow> bits_kept (err_code s) (err_code s')"
proof (induction n arbitrary: d s s')
  case 0
  then show ?case by simp
next
  case (Suc n)
  let ?h = "if rec then endl Header (put (d @ '':'') s) else s"
  have h: "err_code ?h = err_code s" by simp
  show ?case
  proof (cases "opendir sys d")
    case (Inl e)
    with Suc.prems have "s' = handle_error sys ''Error opening directory'' d e ?h"
      by (simp add: list_dir_Suc)
    then show ?thesis by simp
  next
    case (Inr es)
    with Suc.prems obtain s2 where s2: "list_entries sys d ll (visible la es) ?h = Inr s2"
      "for_subdirs (\<lambda>p. list_dir n sys p ll la rec)
        (if rec then take 1024 (found sys d la es) else []) s2 = Inr s'"
      by (auto simp: list_dir_Suc split: sum.splits)
    from list_entries_kept [OF s2(1)] h have "bits_kept (err_code s) (err_code s2)" by simp
    then show ?thesis by (rule bits_kept_trans [OF _ for_subdirs_kept [OF Suc.IH s2(2)]])
  qed
qed

lemma main_loop_Cons:
  "main_loop n sys ll la rec multi (a # rest) s =
     (case lstat sys a of
        Inl e \<Rightarrow> main_loop n sys ll la rec multi rest (handle_error sys ''cannot access'' a e s)
      | Inr sb \<Rightarrow>
          if S_ISDIR (st_mode sb)
          then (case list_dir n sys a ll la rec
                       (if multi then endl Header (put (a @ '':'') s) else s) of
                  Inl e \<Rightarrow> Inl e
                | Inr s4 \<Rightarrow> main_loop n sys ll la rec multi rest
                               (if rest \<noteq> [] then endl Blank s4 else s4))
          else (case list_file sys a a ll s of
                  Inl e \<Rightarrow> Inl e
                | Inr s3 \<Rightarrow> main_loop n sys ll la rec multi rest s3))"
  by (simp add: test_file_def is_dir_def Let_def split: sum.split)

declare main_loop.simps(2) [simp del]

lemma main_loop_kept:
  "main_loop n sys ll la rec multi args s = Inr s' \<Longrightarrow> bits_kept (err_code s) (err_code s')"
proof (induction args arbitrary: s)
  case Nil
  then show ?case by simp
next
  case (Cons a rest)
  show ?case
  proof (cases "lstat sys a")
    case (Inl e)
    with Cons.prems have "main_loop n sys ll la rec multi rest
        (handle_error sys ''cannot access'' a e s) = Inr s'"
      by (simp add: main_loop_Cons)
    from Cons.IH [OF this]
    have "bits_kept (err_code (handle_error sys ''cannot access'' a e s)) (err_code s')" .
    moreover have "bits_kept (err_code s) (err_code (handle_error sys ''cannot access'' a e s))"
      by simp
    ultimately show ?thesis by (rule bits_kept_trans [rotated])
  next
    case (Inr sb)
    show ?thesis
    proof (cases "S_ISDIR (st_mode sb)")
      case True
      with Inr Cons.prems obtain s4 where
        s4: "list_dir n sys a ll la rec (if multi then endl Header (put (a @ '':'') s) else s) = Inr s4"
        and r: "main_loop n sys ll la rec multi rest (if rest \<noteq> [] then endl Blank s4 else s4) = Inr s'"
        by (auto simp: main_loop_Cons split: sum.splits)
      from list_dir_kept [OF s4] have "bits_kept (err_code s) (err_code s4)"
        by (simp split: if_splits)
      moreover from Cons.IH [OF r] have "bits_kept (err_code s4) (err_code s')"
        by (simp split: if_splits)
      ultimately show ?thesis by (rule bits_kept_trans)
    next
      case False
      with Inr Cons.prems obtain s3 where s3: "list_file sys a a ll s = Inr s3"
        "main_loop n sys ll la rec multi rest s3 = Inr s'"
        by (auto simp: main_loop_Cons split: sum.splits)
      show ?thesis
        by (rule bits_kept_trans [OF list_file_kept [OF s3(1)] Cons.IH [OF s3(2)]])
    qed
  qed
qed

subsection \<open>Concrete runs\<close>

lemma demo_os_fields [simp]:
  "lstat demo_os = demo_lstat" "opendir demo_os = demo_opendir"
  "getpwuid demo_os u = (if u = 1000 then Some ''alice'' else None)"
  "getgrgid demo_os g = (if g = 1000 then Some ''staff'' else None)"
  "readlink demo_os p = None"
  "now demo_os = \<lparr>tv_sec = 1700000000, tv_nsec = 500000000\<rparr>"
  "localtime demo_os = demo_localtime"
  "strftime demo_os fmt t = fmt"
  "strerror demo_os e = (if e = ENOENT then ''No such file or directory''
                         else if e = EACCES then ''Permission denied''
                         else if e = ENOTDIR then ''Not a directory''
                         else ''Input/output error'')"
  by (simp_all add: demo_os_def)

lemma replicate_num: "replicate (numeral k) x = x # replicate (pred_numeral k) x"
  by (simp add: numeral_eq_Suc)

lemma orphan_line:
  "long_text demo_os orphan_stat ''orphan'' ''orphan'' False ''%b %e %Y''
     = ''-rw-r--r-- 1 4242     4243            0 %b %e %Y orphan''"
  by (simp add: long_text_def orphan_stat_def show_int_def digits.simps
      pad_right_def pad_left_def replicate_num
      ftype_to_str_def S_ISLNK_def S_ISDIR_def S_ISREG_def S_IFMT_def S_IFLNK_def S_IFDIR_def
      S_IFREG_def S_IRUSR_def S_IWUSR_def S_IXUSR_def S_IRGRP_def S_IWGRP_def S_IXGRP_def
      S_IROTH_def S_IWOTH_def S_IXOTH_def)

lemma orphan_lstat: "lstat demo_os ''orphan'' = Inr orphan_stat"
  by (simp add: demo_lstat_def)

lemma orphan_date: "date_string demo_os (st_mtim orphan_stat) = Inr ''%b %e %Y''"
  by (simp add: date_string_format strftime_at_def orphan_stat_def demo_localtime_def)

lemma far_date: "date_string demo_os (st_mtim far_stat) = Inl Crashed"
  by (simp add: date_string_format strftime_at_def far_stat_def demo_localtime_def)

subsection \<open>Decimal digits and sizes\<close>

lemma digit_char: "d < 10 \<Longrightarrow> of_char (''0123456789'' ! d) = (48 + d :: nat)"
proof -
  assume "d < 10"
  then have "d \<in> {9, 8, 7, 6, 5} \<or> d \<in> {4, 3, 2, 1, 0}"
    by auto
  then show ?thesis by (elim disjE insertE emptyE) simp_all
qed

lemma decimal_snoc: "decimal (t @ [c]) = 10 * decimal t + (of_char c - 48)"
  by (simp add: decimal_def)

lemma decimal_digits: "decimal (digits n) = n"
proof (induction n rule: digits.induct)
  case (1 n)
  show ?case
  proof (cases "n < 10")
    case True
    then show ?thesis
      by (subst digits.simps) (simp add: decimal_def digit_char)
  next
    case False
    with "1" have "decimal (digits (n div 10)) = n div 10" by simp
    with False show ?thesis
      by (subst digits.simps) (simp add: decimal_snoc digit_char)
  qed
qed

lemma round_half_even_nonneg: "0 \<le> q \<Longrightarrow> 0 \<le> round_half_even q"
  by (auto simp: round_half_even_def Let_def)

lemma to_double_below: "i < 1024 \<Longrightarrow> to_double i < 1024"
proof (cases "\<bar>i\<bar> < 2 ^ 53")
  case True
  assume "i < 1024"
  with True show ?thesis by (simp add: to_double_def)
next
  case False
  assume "i < 1024"
  with False have neg: "i < 0" by simp
  define e where "e = nat (bitlen \<bar>i\<bar> - 53)"
  have "0 \<le> round_half_even (of_int \<bar>i\<bar> / 2 ^ e)"
    by (rule round_half_even_nonneg) simp
  then have "sgn i * round_half_even (of_int \<bar>i\<bar> / 2 ^ e) * 2 ^ e \<le> 0"
    using neg by (simp add: mult_le_0_iff zero_le_mult_iff)
  then have "(of_int (sgn i * round_half_even (of_int \<bar>i\<bar> / 2 ^ e) * 2 ^ e) :: rat) \<le> 0"
    by (simp only: of_int_le_0_iff)
  with False show ?thesis by (simp add: to_double_def Let_def e_def)
qed

lemma scale_steps:
  "i + k \<le> 6 \<Longrightarrow> 1024 ^ k \<le> x \<or> k = 0 \<Longrightarrow> x < 1024 ^ Suc k \<or> i + k = 6 \<Longrightarrow>
   scale (x, i) = (x / 1024 ^ k, i + k)"
proof (induction k arbitrary: x i)
  case 0
  then show ?case by (subst scale.simps) auto
next
  case (Suc k)
  from Suc.prems have big: "1024 * 1024 ^ k \<le> x" "i < 6" by simp_all
  have "(1::rat) \<le> 1024 ^ k" by simp
  then have "(1024::rat) \<le> 1024 * 1024 ^ k" by simp
  with big have x: "1024 \<le> x" by linarith
  have "scale (x / 1024, i + 1) = (x / 1024 / 1024 ^ k, i + 1 + k)"
  proof (rule Suc.IH)
    show "i + 1 + k \<le> 6" using Suc.prems by simp
    show "1024 ^ k \<le> x / 1024 \<or> k = 0" using big by (simp add: le_divide_eq)
    show "x / 1024 < 1024 ^ Suc k \<or> i + 1 + k = 6"
      using Suc.prems by (auto simp: divide_less_eq)
  qed
  with x big show ?case by (subst scale.simps) simp
qed

lemma format_size_human_bytes:
  "sint sz < 1024 \<Longrightarrow> format_size_human sz 16 = take 15 (show_int (sint sz))"
  using scale_steps [of 0 0 "to_double (sint sz)"] to_double_below [of "sint sz"]
  by (simp add: format_size_human_def)

lemma format_size_human_unit:
  "1 \<le> k \<Longrightarrow> k \<le> 6 \<Longrightarrow> 1024 ^ k \<le> to_double (sint sz) \<Longrightarrow>
   to_double (sint sz) < 1024 ^ Suc k \<or> k = 6 \<Longrightarrow>
   format_size_human sz 16 = take 15 (fmt_1f (to_double (sint sz) / 1024 ^ k) @ units ! k)"
  using scale_steps [of 0 k "to_double (sint sz)"]
  by (simp add: format_size_human_def)

lemma format_size_human_examples:
  "format_size_human 0 16 = ''0''" "format_size_human 1023 16 = ''1023''"
  "format_size_human 1024 16 = ''1.0K''" "format_size_human 1536 16 = ''1.5K''"
  "format_size_human 1048576 16 = ''1.0M''"
  by (simp_all add: format_size_human_def scale.simps to_double_def show_int_def digits.simps
      fmt_1f_def round_half_even_def units_def Let_def)

subsection \<open>Evaluating runs on the small file systems\<close>

text \<open>
  Runs are evaluated by rewriting with the closed forms above. The depth bound of a
  concrete run is written with \<open>Suc\<close>; the recursive call is only unfolded once it is
  applied to a path.
\<close>

lemma long_dir_length [simp]: "length long_dir = 250"
  by (simp add: long_dir_def)

lemma long_os_fields [simp]:
  "lstat long_os p = (if p = long_dir \<or> p = long_dir @ ''/bbbbbbbbbb''
                      then Inr dir_stat else Inl ENOENT)"
  "opendir long_os p = (if p = long_dir then Inr [''.'', ''..'', ''bbbbbbbbbb'']
                        else if p = long_dir @ ''/bbbbbbbbbb'' then Inr [''.'', ''..'']
                        else Inl ENOENT)"
  "strerror long_os e = strerror demo_os e"
  by (simp_all add: long_os_def)

lemma dir_stat_is_dir [simp]: "S_ISDIR (st_mode dir_stat)"
  by (simp add: dir_stat_def S_ISDIR_def S_IFMT_def S_IFDIR_def)

lemma reg_stat_no_dir [simp]: "\<not> S_ISDIR (st_mode reg_stat)"
  by (simp add: reg_stat_def S_ISDIR_def S_IFMT_def S_IFDIR_def)

lemma list_file_bare:
  "\<not> count_only s \<Longrightarrow> list_file sys p nm False s =
     Inr (case lstat sys p of
            Inl e \<Rightarrow> handle_error sys ''cannot access'' p e s
          | Inr sb \<Rightarrow> endl Entry (put (nm @ (if S_ISDIR (st_mode sb) \<and> nm \<noteq> ''.'' \<and> nm \<noteq> ''..''
                                               then ''/'' else [])) s))"
  by (simp add: list_file_bare_ok list_file_bare_fail split: sum.split)

lemma for_subdirs_weak_cong:
  "ps = ps' \<Longrightarrow> s = s' \<Longrightarrow> for_subdirs f ps s = for_subdirs f ps' s'"
  by simp

lemma init_fields [simp]:
  "err_code (init c h) = 0" "file_count (init c h) = 0" "count_only (init c h) = c"
  "human_readable (init c h) = h" "out (init c h) = []" "pending (init c h) = []"
  by (simp_all add: init_def)

lemmas run_simps = main_def main_loop_Cons init_def list_dir_Suc
  found_def visible_def hidden_def is_subdir_def fullpath_def
  list_file_bare list_file_count demo_lstat_def demo_opendir_def put_def endl_def
  handle_error_def PRINT_ERROR_def Let_def ENOENT_def EACCES_def EPERM_def ENOTDIR_def

subsection \<open>The loop over the targets in count-only mode\<close>

lemma no_entry_left: "filter (\<lambda>l. fst l = Entry) (filter (\<lambda>l. \<not> entry_line l) Y) = []"
  by (induction Y) (auto simp: entry_line_def)

lemma no_line_left: "filter entry_line (filter (\<lambda>l. \<not> entry_line l) Y) = []"
  by (induction Y) auto

lemma same_left:
  "filter (\<lambda>l. \<not> entry_line l) (filter (\<lambda>l. \<not> entry_line l) Y) = filter (\<lambda>l. \<not> entry_line l) Y"
  by (induction Y) auto

lemma mtwin_refl:
  "count_only a \<Longrightarrow> \<not> count_only b \<Longrightarrow> pending a = [] \<Longrightarrow> pending b = [] \<Longrightarrow> mtwin a b 0 a b"
  by (simp add: mtwin_def)

lemma twin_mtwin:
  assumes "mtwin a b m sc sb" "twin sc sb sc' sb'"
  shows "mtwin a b m sc' sb'"
proof -
  from assms(1) obtain Y Z where Y: "out sb = out b @ Y" "out sc = out a @ Z"
    "filter (\<lambda>l. fst l = Entry) Z = []"
    "filter (\<lambda>l. \<not> entry_line l) Z = filter (\<lambda>l. \<not> entry_line l) Y"
    "length (filter entry_line Z) = m"
    "file_count sc + of_nat m = file_count a + of_nat (length (filter entry_line Y))"
    unfolding mtwin_def by blast
  from assms(2) obtain Y' where c: "count_only sc'" "\<not> count_only sb'" "pending sc' = []"
    "pending sb' = []" and Y': "out sb' = out sb @ Y'"
    "out sc' = out sc @ filter (\<lambda>l. \<not> entry_line l) Y'"
    "file_count sc' = file_count sc + of_nat (length (filter entry_line Y'))"
    unfolding twin_def by blast
  let ?Z = "Z @ filter (\<lambda>l. \<not> entry_line l) Y'"
  have 1: "out sb' = out b @ (Y @ Y')" using Y Y' by simp
  have 2: "out sc' = out a @ ?Z" using Y Y' by simp
  have 3: "filter (\<lambda>l. fst l = Entry) ?Z = []"
    using Y(3) no_entry_left [of Y'] by (simp del: filter_filter)
  have 4: "filter (\<lambda>l. \<not> entry_line l) ?Z = filter (\<lambda>l. \<not> entry_line l) (Y @ Y')"
    using Y(4) same_left [of Y'] by (simp del: filter_filter)
  have 5: "length (filter entry_line ?Z) = m"
    using Y(5) no_line_left [of Y'] by (simp del: filter_filter)
  have "file_count sc' + of_nat m
      = (file_count sc + of_nat m) + of_nat (length (filter entry_line Y'))"
    using Y'(3) by simp
  also have "\<dots> = file_count a + of_nat (length (filter entry_line (Y @ Y')))"
    using Y(6) by simp
  finally have 6: "file_count sc' + of_nat m
      = file_count a + of_nat (length (filter entry_line (Y @ Y')))" .
  show ?thesis unfolding mtwin_def using c 1 2 3 4 5 6 by blast
qed

lemma mtwin_step:
  assumes "mtwin a b m sc sb"
    and "count_only sc'" "\<not> count_only sb'" "pending sc' = []" "pending sb' = []"
    and "out sb' = out sb @ [l]" "out sc' = out sc @ [l]" "fst l \<noteq> Entry"
    and "file_count sc' = file_count sc"
  shows "mtwin a b (m + (if entry_line l then 1 else 0)) sc' sb'"
proof -
  from assms(1) obtain Y Z where Y: "out sb = out b @ Y" "out sc = out a @ Z"
    "filter (\<lambda>l. fst l = Entry) Z = []"
    "filter (\<lambda>l. \<not> entry_line l) Z = filter (\<lambda>l. \<not> entry_line l) Y"
    "length (filter entry_line Z) = m"
    "file_count sc + of_nat m = file_count a + of_nat (length (filter entry_line Y))"
    unfolding mtwin_def by blast
  have 1: "out sb' = out b @ (Y @ [l])" using Y assms by simp
  have 2: "out sc' = out a @ (Z @ [l])" using Y assms by simp
  have 3: "filter (\<lambda>l. fst l = Entry) (Z @ [l]) = []" using Y(3) assms by simp
  have 4: "filter (\<lambda>l. \<not> entry_line l) (Z @ [l]) = filter (\<lambda>l. \<not> entry_line l) (Y @ [l])"
    using Y(4) by simp
  have 5: "length (filter entry_line (Z @ [l])) = m + (if entry_line l then 1 else 0)"
    using Y(5) by simp
  have "file_count sc' + of_nat (m + (if entry_line l then 1 else 0))
      = (file_count sc + of_nat m) + of_nat (if entry_line l then 1 else 0)"
    using assms(9) by simp
  also have "\<dots> = file_count a + of_nat (length (filter entry_line (Y @ [l])))"
    using Y(6) by simp
  finally have 6: "file_count sc' + of_nat (m + (if entry_line l then 1 else 0))
      = file_count a + of_nat (length (filter entry_line (Y @ [l])))" .
  show ?thesis unfolding mtwin_def using assms(2-5) 1 2 3 4 5 6 by blast
qed

lemma mtwin_flags:
  "mtwin a b m sc sb \<Longrightarrow> count_only sc \<and> \<not> count_only sb \<and> pending sc = [] \<and> pending sb = []"
  by (simp add: mtwin_def)

lemma mtwin_missing:
  assumes "mtwin a b m sc sb"
  shows "mtwin a b (Suc m) (handle_error sys ''cannot access'' p e sc)
                           (handle_error sys ''cannot access'' p e sb)"
proof -
  let ?l = "(Diag, ''ls: '' @ ''cannot access'' @ '' '' @ p @ '': '' @ strerror sys e)"
  have e: "entry_line ?l" by (simp add: entry_line_def)
  from mtwin_flags [OF assms]
  have "mtwin a b (m + (if entry_line ?l then 1 else 0))
      (handle_error sys ''cannot access'' p e sc) (handle_error sys ''cannot access'' p e sb)"
    by (intro mtwin_step [OF assms]) simp_all
  with e show ?thesis by simp
qed

lemma mtwin_line:
  assumes "mtwin a b m sc sb" "k = Header \<or> k = Blank"
  shows "mtwin a b m (endl k (put t sc)) (endl k (put t sb))"
proof -
  have e: "\<not> entry_line (k, t)" using assms(2) by (auto simp: entry_line_def)
  from mtwin_flags [OF assms(1)] assms(2)
  have "mtwin a b (m + (if entry_line (k, t) then 1 else 0))
      (endl k (put t sc)) (endl k (put t sb))"
    by (intro mtwin_step [OF assms(1)]) auto
  with e show ?thesis by simp
qed

lemma mtwin_blank: "mtwin a b m sc sb \<Longrightarrow> mtwin a b m (endl Blank sc) (endl Blank sb)"
  using mtwin_line [of a b m sc sb Blank "[]"] by (simp add: put_def)

lemma mtwin_list_file:
  assumes "mtwin a b m sc sb"
  shows "beside (ll' \<and> (\<exists>t. localtime sys t = None)) (mtwin a b m)
           (list_file sys p nm ll sc) (list_file sys p nm ll' sb)"
proof -
  from mtwin_flags [OF assms] have "twin sc sb sc sb" by (simp add: twin_refl)
  then have "beside (ll' \<and> (\<exists>t. localtime sys t = None)) (twin sc sb)
      (list_file sys p nm ll sc) (list_file sys p nm ll' sb)"
    by (rule twin_list_file)
  then show ?thesis
    by (rule beside_mono) (rule twin_mtwin [OF assms])
qed

lemma mtwin_list_dir:
  assumes "mtwin a b m sc sb"
  shows "beside (ll' \<and> (\<exists>t. localtime sys t = None)) (mtwin a b m)
           (list_dir n sys d ll la rec sc) (list_dir n sys d ll' la rec sb)"
proof -
  from mtwin_flags [OF assms] have "twin sc sb sc sb" by (simp add: twin_refl)
  then have "beside (ll' \<and> (\<exists>t. localtime sys t = None)) (twin sc sb)
      (list_dir n sys d ll la rec sc) (list_dir n sys d ll' la rec sb)"
    by (rule twin_list_dir)
  then show ?thesis
    by (rule beside_mono) (rule twin_mtwin [OF assms])
qed

lemma mtwin_main_loop:
  "mtwin a b m sc sb \<Longrightarrow>
   beside (ll' \<and> (\<exists>t. localtime sys t = None)) (mtwin a b (m + missing sys args))
     (main_loop n sys ll la rec multi args sc) (main_loop n sys ll' la rec multi args sb)"
proof (induction args arbitrary: m sc sb)
  case Nil
  then show ?case by (simp add: missing_def beside_Inr)
next
  case (Cons x rest)
  let ?g = "ll' \<and> (\<exists>t. localtime sys t = None)"
  show ?case
  proof (cases "lstat sys x")
    case (Inl e)
    have "beside ?g (mtwin a b (Suc m + missing sys rest))
        (main_loop n sys ll la rec multi rest (handle_error sys ''cannot access'' x e sc))
        (main_loop n sys ll' la rec multi rest (handle_error sys ''cannot access'' x e sb))"
      by (rule Cons.IH [OF mtwin_missing [OF Cons.prems]])
    with Inl show ?thesis by (simp add: main_loop_Cons missing_def)
  next
    case (Inr st)
    then have ms: "missing sys (x # rest) = missing sys rest" by (simp add: missing_def)
    show ?thesis
    proof (cases "S_ISDIR (st_mode st)")
      case False
      have "beside ?g (mtwin a b (m + missing sys rest))
          (case list_file sys x x ll sc of
             Inl e \<Rightarrow> Inl e | Inr s3 \<Rightarrow> main_loop n sys ll la rec multi rest s3)
          (case list_file sys x x ll' sb of
             Inl e \<Rightarrow> Inl e | Inr s3 \<Rightarrow> main_loop n sys ll' la rec multi rest s3)"
        by (rule beside_bind [OF mtwin_list_file [OF Cons.prems]]) (rule Cons.IH)
      with Inr False ms show ?thesis by (simp add: main_loop_Cons)
    next
      case True
      let ?h = "\<lambda>s. if multi then endl Header (put (x @ '':'') s) else s"
      let ?k = "\<lambda>s. if rest \<noteq> [] then endl Blank s else s"
      have h: "mtwin a b m (?h sc) (?h sb)"
        using Cons.prems by (simp add: mtwin_line)
      have "beside ?g (mtwin a b (m + missing sys rest))
          (case list_dir n sys x ll la rec (?h sc) of
             Inl e \<Rightarrow> Inl e | Inr s4 \<Rightarrow> main_loop n sys ll la rec multi rest (?k s4))
          (case list_dir n sys x ll' la rec (?h sb) of
             Inl e \<Rightarrow> Inl e | Inr s4 \<Rightarrow> main_loop n sys ll' la rec multi rest (?k s4))"
      proof (rule beside_bind [OF mtwin_list_dir [OF h]])
        fix sc4 sb4
        assume "mtwin a b m sc4 sb4"
        then have "mtwin a b m (?k sc4) (?k sb4)" by (simp add: mtwin_blank)
        then show "beside ?g (mtwin a b (m + missing sys rest))
            (main_loop n sys ll la rec multi rest (?k sc4))
            (main_loop n sys ll' la rec multi rest (?k sb4))"
          by (rule Cons.IH)
      qed
      with Inr True ms show ?thesis by (simp add: main_loop_Cons)
    qed
  qed
qed

lemma mtwin_main_body:
  "beside (ll' \<and> (\<exists>t. localtime sys t = None))
     (mtwin (init True h) (init False h') (missing sys args))
     (if args = []
      then list_dir n sys ''.'' ll la rec
             (if rec then endl Header (put ''.:'' (init True h)) else init True h)
      else main_loop n sys ll la rec (1 < length args) args (init True h))
     (if args = []
      then list_dir n sys ''.'' ll' la rec
             (if rec then endl Header (put ''.:'' (init False h')) else init False h')
      else main_loop n sys ll' la rec (1 < length args) args (init False h'))"
proof -
  have i: "mtwin (init True h) (init False h') 0 (init True h) (init False h')"
    by (simp add: mtwin_refl)
  show ?thesis
  proof (cases "args = []")
    case True
    let ?h = "\<lambda>s. if rec then endl Header (put ''.:'' s) else s"
    have "mtwin (init True h) (init False h') 0 (?h (init True h)) (?h (init False h'))"
      using i by (simp add: mtwin_line)
    from mtwin_list_dir [OF this] True show ?thesis by (simp add: missing_def)
  next
    case False
    with mtwin_main_loop [OF i, of ll' sys args] show ?thesis by simp
  qed
qed

subsection \<open>The number of entries handed to \<^verbatim>\<open>list_file\<close>\<close>

text \<open>In count-only mode the counter grows by that number.\<close>

lemma list_entries_count:
  "count_only s \<Longrightarrow> list_entries sys d ll es s = Inr s' \<Longrightarrow>
   count_only s' \<and> file_count s' = file_count s + of_nat (length es)"
proof (induction es arbitrary: s)
  case Nil
  then show ?case by auto
next
  case (Cons nm es)
  let ?s = "s\<lparr>file_count := file_count s + 1\<rparr>"
  from Cons.prems have "list_entries sys d ll es ?s = Inr s'"
    by (simp add: list_file_count)
  from Cons.IH [OF _ this] Cons.prems(1) show ?case by simp
qed

lemma for_subdirs_count:
  assumes "\<And>p s s'. count_only s \<Longrightarrow> f p s = Inr s' \<Longrightarrow>
      count_only s' \<and> file_count s' = file_count s + of_nat (w p)"
  shows "count_only s \<Longrightarrow> for_subdirs f ps s = Inr s' \<Longrightarrow>
      count_only s' \<and> file_count s' = file_count s + of_nat (sum_list (map w ps))"
proof (induction ps arbitrary: s)
  case Nil
  then show ?case by auto
next
  case (Cons p ps)
  from Cons.prems obtain s1 where s1: "f p (endl Blank s) = Inr s1" "for_subdirs f ps s1 = Inr s'"
    by (auto split: sum.splits)
  from assms [OF _ s1(1)] Cons.prems(1)
  have a: "count_only s1" "file_count s1 = file_count s + of_nat (w p)" by simp_all
  from Cons.IH [OF a(1) s1(2)] a(2) show ?case by simp
qed

lemma list_dir_count:
  "count_only s \<Longrightarrow> list_dir n sys d ll la rec s = Inr s' \<Longrightarrow>
   count_only s' \<and> file_count s' = file_count s + of_nat (walk_count n sys d la rec)"
proof (induction n arbitrary: d s s')
  case 0
  then show ?case by simp
next
  case (Suc n)
  let ?h = "if rec then endl Header (put (d @ '':'') s) else s"
  have h: "count_only ?h" "file_count ?h = file_count s" using Suc.prems(1) by simp_all
  show ?case
  proof (cases "opendir sys d")
    case (Inl e)
    with Suc.prems(2) have "s' = handle_error sys ''Error opening directory'' d e ?h"
      by (simp add: list_dir_Suc)
    with Inl h show ?thesis by simp
  next
    case (Inr es)
    with Suc.prems(2) obtain s2 where s2: "list_entries sys d ll (visible la es) ?h = Inr s2"
      "for_subdirs (\<lambda>p. list_dir n sys p ll la rec)
        (if rec then take 1024 (found sys d la es) else []) s2 = Inr s'"
      by (auto simp: list_dir_Suc split: sum.splits)
    from list_entries_count [OF h(1) s2(1)] h(2)
    have a: "count_only s2" "file_count s2 = file_count s + of_nat (length (visible la es))"
      by simp_all
    from for_subdirs_count [where f = "\<lambda>p. list_dir n sys p ll la rec"
        and w = "\<lambda>p. walk_count n sys p la rec", OF Suc.IH a(1) s2(2)]
    have "count_only s' \<and> file_count s' = file_count s2
        + of_nat (sum_list (map (\<lambda>p. walk_count n sys p la rec)
            (if rec then take 1024 (found sys d la es) else [])))"
      by simp
    with a(2) Inr show ?thesis by simp
  qed
qed

lemma handed_Cons:
  "handed n sys la rec (a # rest) =
     (case lstat sys a of
        Inl e \<Rightarrow> 0
      | Inr sb \<Rightarrow> if S_ISDIR (st_mode sb) then walk_count n sys a la rec else 1)
     + handed n sys la rec rest"
  by (simp add: handed_def)

lemma main_loop_count:
  "count_only s \<Longrightarrow> main_loop n sys ll la rec multi args s = Inr s' \<Longrightarrow>
   count_only s' \<and> file_count s' = file_count s + of_nat (handed n sys la rec args)"
proof (induction args arbitrary: s)
  case Nil
  then show ?case by (auto simp: handed_def)
next
  case (Cons a rest)
  show ?case
  proof (cases "lstat sys a")
    case (Inl e)
    with Cons.prems(2) have "main_loop n sys ll la rec multi rest
        (handle_error sys ''cannot access'' a e s) = Inr s'"
      by (simp add: main_loop_Cons)
    from Cons.IH [OF _ this] Cons.prems(1) Inl show ?thesis by (simp add: handed_Cons)
  next
    case (Inr sb)
    show ?thesis
    proof (cases "S_ISDIR (st_mode sb)")
      case True
      let ?h = "if multi then endl Header (put (a @ '':'') s) else s"
      from True Inr Cons.prems(2) obtain s4 where
        s4: "list_dir n sys a ll la rec ?h = Inr s4"
        and r: "main_loop n sys ll la rec multi rest (if rest \<noteq> [] then endl Blank s4 else s4) = Inr s'"
        by (auto simp: main_loop_Cons split: sum.splits)
      have h: "count_only ?h" "file_count ?h = file_count s" using Cons.prems(1) by simp_all
      from list_dir_count [OF h(1) s4] h(2)
      have a: "count_only s4" "file_count s4 = file_count s + of_nat (walk_count n sys a la rec)"
        by simp_all
      from Cons.IH [OF _ r] a
      have "count_only s' \<and> file_count s' = file_count s4 + of_nat (handed n sys la rec rest)"
        by simp
      with a(2) Inr True show ?thesis by (simp add: handed_Cons)
    next
      case False
      with Inr Cons.prems have "main_loop n sys ll la rec multi rest
          (s\<lparr>file_count := file_count s + 1\<rparr>) = Inr s'"
        by (simp add: main_loop_Cons list_file_count)
      from Cons.IH [OF _ this] Cons.prems(1) Inr False show ?thesis
        by (simp add: handed_Cons)
    qed
  qed
qed

text \<open>Without count-only, each of these entries gives one per-entry line.\<close>

lemma wrote_refl: "\<not> count_only s \<Longrightarrow> pending s = [] \<Longrightarrow> wrote 0 s s"
  by (simp add: wrote_def)

lemma wrote_flags: "wrote k s s' \<Longrightarrow> \<not> count_only s' \<and> pending s' = []"
  by (simp add: wrote_def)

lemma wrote_trans:
  assumes "wrote j s s1" "wrote k s1 s2"
  shows "wrote (j + k) s s2"
proof -
  from assms(1) obtain Y where Y: "out s1 = out s @ Y" "length (filter entry_line Y) = j"
    unfolding wrote_def by blast
  from assms(2) obtain Y' where Y': "out s2 = out s1 @ Y'" "length (filter entry_line Y') = k"
    and f: "\<not> count_only s2" "pending s2 = []"
    unfolding wrote_def by blast
  have "out s2 = out s @ (Y @ Y')" "length (filter entry_line (Y @ Y')) = j + k"
    using Y Y' by simp_all
  with f show ?thesis unfolding wrote_def by blast
qed

lemma wrote_line:
  assumes "\<not> count_only s" "pending s = []" "k = Header \<or> k = Blank"
  shows "wrote 0 s (endl k (put t s))"
proof -
  have "\<not> entry_line (k, t)" using assms(3) by (auto simp: entry_line_def)
  with assms show ?thesis
    unfolding wrote_def by (intro conjI exI [of _ "[(k, t)]"]) simp_all
qed

lemma wrote_blank: "\<not> count_only s \<Longrightarrow> pending s = [] \<Longrightarrow> wrote 0 s (endl Blank s)"
  unfolding wrote_def by (intro conjI exI [of _ "[(Blank, [])]"]) (simp_all add: entry_line_def)

lemma wrote_open_error:
  assumes "\<not> count_only s" "pending s = []"
  shows "wrote 0 s (handle_error sys ''Error opening directory'' d e s)"
proof -
  let ?l = "(Diag, ''ls: '' @ ''Error opening directory'' @ '' '' @ d @ '': '' @ strerror sys e)"
  have "\<not> entry_line ?l" by (simp add: entry_line_def)
  with assms show ?thesis
    unfolding wrote_def by (intro conjI exI [of _ "[?l]"]) simp_all
qed

lemma wrote_missing:
  assumes "\<not> count_only s" "pending s = []"
  shows "wrote 1 s (handle_error sys ''cannot access'' p e s)"
proof -
  let ?l = "(Diag, ''ls: '' @ ''cannot access'' @ '' '' @ p @ '': '' @ strerror sys e)"
  have "entry_line ?l" by (simp add: entry_line_def)
  with assms show ?thesis
    unfolding wrote_def by (intro conjI exI [of _ "[?l]"]) simp_all
qed

lemma list_file_wrote:
  assumes "\<not> count_only s" "pending s = []" "list_file sys p nm ll s = Inr s'"
  shows "wrote 1 s s'"
proof -
  from list_file_noncount [OF assms(1,2), of ll sys p nm] assms(3)
  obtain l where "entry_line l" "out s' = out s @ [l]" "pending s' = []" "\<not> count_only s'"
    by auto
  then show ?thesis
    unfolding wrote_def by (intro conjI exI [of _ "[l]"]) simp_all
qed

lemma list_entries_wrote:
  "\<not> count_only s \<Longrightarrow> pending s = [] \<Longrightarrow> list_entries sys d ll es s = Inr s' \<Longrightarrow>
   wrote (length es) s s'"
proof (induction es arbitrary: s)
  case Nil
  then show ?case by (auto simp: wrote_refl)
next
  case (Cons nm es)
  from Cons.prems(3) obtain s1 where s1: "list_file sys (fullpath d nm) nm ll s = Inr s1"
    "list_entries sys d ll es s1 = Inr s'"
    by (auto split: sum.splits)
  have a: "wrote 1 s s1" by (rule list_file_wrote [OF Cons.prems(1,2) s1(1)])
  from wrote_flags [OF a] have "wrote (length es) s1 s'"
    by (intro Cons.IH [OF _ _ s1(2)]) simp_all
  from wrote_trans [OF a this] show ?case by simp
qed

lemma for_subdirs_wrote:
  assumes "\<And>p s s'. \<not> count_only s \<Longrightarrow> pending s = [] \<Longrightarrow> f p s = Inr s' \<Longrightarrow> wrote (w p) s s'"
  shows "\<not> count_only s \<Longrightarrow> pending s = [] \<Longrightarrow> for_subdirs f ps s = Inr s' \<Longrightarrow>
      wrote (sum_list (map w ps)) s s'"
proof (induction ps arbitrary: s)
  case Nil
  then show ?case by (auto simp: wrote_refl)
next
  case (Cons p ps)
  from Cons.prems(3) obtain s1 where s1: "f p (endl Blank s) = Inr s1" "for_subdirs f ps s1 = Inr s'"
    by (auto split: sum.splits)
  have b: "wrote 0 s (endl Blank s)" by (rule wrote_blank [OF Cons.prems(1,2)])
  have a: "wrote (w p) (endl Blank s) s1"
    using Cons.prems(1) by (intro assms [OF _ _ s1(1)]) simp_all
  from wrote_flags [OF a] have c: "wrote (sum_list (map w ps)) s1 s'"
    by (intro Cons.IH [OF _ _ s1(2)]) simp_all
  from wrote_trans [OF wrote_trans [OF b a] c] show ?case by simp
qed

lemma list_dir_wrote:
  "\<not> count_only s \<Longrightarrow> pending s = [] \<Longrightarrow> list_dir n sys d ll la rec s = Inr s' \<Longrightarrow>
   wrote (walk_count n sys d la rec) s s'"
proof (induction n arbitrary: d s s')
  case 0
  then show ?case by simp
next
  case (Suc n)
  let ?h = "if rec then endl Header (put (d @ '':'') s) else s"
  have h: "wrote 0 s ?h"
    using Suc.prems(1,2) by (simp add: wrote_line wrote_refl)
  note hf = wrote_flags [OF h]
  show ?case
  proof (cases "opendir sys d")
    case (Inl e)
    with Suc.prems(3) have "s' = handle_error sys ''Error opening directory'' d e ?h"
      by (simp add: list_dir_Suc)
    moreover have "wrote 0 ?h (handle_error sys ''Error opening directory'' d e ?h)"
      using hf by (intro wrote_open_error) simp_all
    ultimately have "wrote (0 + 0) s s'" using h by (simp only: wrote_trans)
    with Inl show ?thesis by simp
  next
    case (Inr es)
    with Suc.prems(3) obtain s2 where s2: "list_entries sys d ll (visible la es) ?h = Inr s2"
      "for_subdirs (\<lambda>p. list_dir n sys p ll la rec)
        (if rec then take 1024 (found sys d la es) else []) s2 = Inr s'"
      by (auto simp: list_dir_Suc split: sum.splits)
    have a: "wrote (length (visible la es)) ?h s2"
      using hf by (intro list_entries_wrote [OF _ _ s2(1)]) simp_all
    from wrote_flags [OF a]
    have b: "wrote (sum_list (map (\<lambda>p. walk_count n sys p la rec)
            (if rec then take 1024 (found sys d la es) else []))) s2 s'"
      by (intro for_subdirs_wrote [where f = "\<lambda>p. list_dir n sys p ll la rec"
            and w = "\<lambda>p. walk_count n sys p la rec", OF Suc.IH _ _ s2(2)]) simp_all
    from wrote_trans [OF wrote_trans [OF h a] b] Inr show ?thesis
      by (cases rec) simp_all
  qed
qed

lemma missing_Cons:
  "missing sys (a # rest) = (if isl (lstat sys a) then 1 else 0) + missing sys rest"
  by (simp add: missing_def)

lemma main_loop_wrote:
  "\<not> count_only s \<Longrightarrow> pending s = [] \<Longrightarrow> main_loop n sys ll la rec multi args s = Inr s' \<Longrightarrow>
   wrote (handed n sys la rec args + missing sys args) s s'"
proof (induction args arbitrary: s)
  case Nil
  then show ?case by (auto simp: handed_def missing_def wrote_refl)
next
  case (Cons a rest)
  show ?case
  proof (cases "lstat sys a")
    case (Inl e)
    let ?s = "handle_error sys ''cannot access'' a e s"
    from Inl Cons.prems(3) have r: "main_loop n sys ll la rec multi rest ?s = Inr s'"
      by (simp add: main_loop_Cons)
    have a: "wrote 1 s ?s" by (rule wrote_missing [OF Cons.prems(1,2)])
    from wrote_flags [OF a]
    have "wrote (handed n sys la rec rest + missing sys rest) ?s s'"
      by (intro Cons.IH [OF _ _ r]) simp_all
    from wrote_trans [OF a this] Inl show ?thesis
      by (simp add: handed_Cons missing_Cons add.commute)
  next
    case (Inr sb)
    show ?thesis
    proof (cases "S_ISDIR (st_mode sb)")
      case True
      let ?h = "if multi then endl Header (put (a @ '':'') s) else s"
      from True Inr Cons.prems(3) obtain s4 where
        s4: "list_dir n sys a ll la rec ?h = Inr s4"
        and r: "main_loop n sys ll la rec multi rest (if rest \<noteq> [] then endl Blank s4 else s4) = Inr s'"
        by (auto simp: main_loop_Cons split: sum.splits)
      let ?k = "if rest \<noteq> [] then endl Blank s4 else s4"
      have h: "wrote 0 s ?h"
        using Cons.prems(1,2) by (simp add: wrote_line wrote_refl)
      from wrote_flags [OF h] have a: "wrote (walk_count n sys a la rec) ?h s4"
        by (intro list_dir_wrote [OF _ _ s4]) simp_all
      from wrote_flags [OF a] have k: "wrote 0 s4 ?k"
        by (simp add: wrote_blank wrote_refl)
      from wrote_flags [OF k] have b: "wrote (handed n sys la rec rest + missing sys rest) ?k s'"
        by (intro Cons.IH [OF _ _ r]) simp_all
      from wrote_trans [OF wrote_trans [OF wrote_trans [OF h a] k] b] Inr True show ?thesis
        by (simp add: handed_Cons missing_Cons add.assoc)
    next
      case False
      with Inr Cons.prems(3) obtain s3 where s3: "list_file sys a a ll s = Inr s3"
        "main_loop n sys ll la rec multi rest s3 = Inr s'"
        by (auto simp: main_loop_Cons split: sum.splits)
      have a: "wrote 1 s s3" by (rule list_file_wrote [OF Cons.prems(1,2) s3(1)])
      from wrote_flags [OF a] have "wrote (handed n sys la rec rest + missing sys rest) s3 s'"
        by (intro Cons.IH [OF _ _ s3(2)]) simp_all
      from wrote_trans [OF a this] Inr False show ?thesis
        by (simp add: handed_Cons missing_Cons add.assoc)
    qed
  qed
qed

subsection \<open>Runs that return\<close>

text \<open>
  A call whose walk stays within the depth bound returns, unless the process is killed:
  that happens only in a long listing that is not count-only, at a modification time that
  \<^verbatim>\<open>localtime\<close> does not convert.
\<close>

lemma list_file_outcome:
  assumes "count_only s = c"
  shows "(list_file sys p nm ll s = Inl Crashed \<and> ll \<and> \<not> c \<and> (\<exists>t. localtime sys t = None))
     \<or> (\<exists>s'. list_file sys p nm ll s = Inr s' \<and> count_only s' = c)"
proof (cases "list_file sys p nm ll s")
  case (Inl e)
  from list_file_stop_time [OF Inl] Inl assms show ?thesis by blast
next
  case (Inr s')
  with list_file_flags [OF Inr] assms show ?thesis by simp
qed

lemma list_entries_outcome:
  "count_only s = c \<Longrightarrow>
   (list_entries sys d ll es s = Inl Crashed \<and> ll \<and> \<not> c \<and> (\<exists>t. localtime sys t = None))
   \<or> (\<exists>s'. list_entries sys d ll es s = Inr s' \<and> count_only s' = c)"
proof (induction es arbitrary: s)
  case Nil
  then show ?case by simp
next
  case (Cons nm es)
  from list_file_outcome [OF Cons.prems, of sys "fullpath d nm" nm ll]
  show ?case
  proof
    assume "list_file sys (fullpath d nm) nm ll s = Inl Crashed \<and> ll \<and> \<not> c
        \<and> (\<exists>t. localtime sys t = None)"
    then show ?thesis by auto
  next
    assume "\<exists>s'. list_file sys (fullpath d nm) nm ll s = Inr s' \<and> count_only s' = c"
    then obtain s1 where s1: "list_file sys (fullpath d nm) nm ll s = Inr s1" "count_only s1 = c"
      by blast
    from Cons.IH [OF s1(2)] s1(1) show ?thesis by simp
  qed
qed

lemma for_subdirs_outcome:
  assumes "\<And>p s. p \<in> set ps \<Longrightarrow> count_only s = c \<Longrightarrow>
      (f p s = Inl Crashed \<and> G) \<or> (\<exists>s'. f p s = Inr s' \<and> count_only s' = c)"
  shows "count_only s = c \<Longrightarrow>
      (for_subdirs f ps s = Inl Crashed \<and> G)
      \<or> (\<exists>s'. for_subdirs f ps s = Inr s' \<and> count_only s' = c)"
  using assms
proof (induction ps arbitrary: s)
  case Nil
  then show ?case by simp
next
  case (Cons p ps)
  have "count_only (endl Blank s) = c" using Cons.prems(1) by simp
  from Cons.prems(2) [OF _ this, of p]
  have "(f p (endl Blank s) = Inl Crashed \<and> G)
      \<or> (\<exists>s'. f p (endl Blank s) = Inr s' \<and> count_only s' = c)"
    by simp
  then show ?case
  proof
    assume "f p (endl Blank s) = Inl Crashed \<and> G"
    then show ?thesis by auto
  next
    assume "\<exists>s'. f p (endl Blank s) = Inr s' \<and> count_only s' = c"
    then obtain s1 where s1: "f p (endl Blank s) = Inr s1" "count_only s1 = c" by blast
    have "(for_subdirs f ps s1 = Inl Crashed \<and> G)
        \<or> (\<exists>s'. for_subdirs f ps s1 = Inr s' \<and> count_only s' = c)"
      by (rule Cons.IH [OF s1(2)]) (rule Cons.prems(2), simp_all)
    with s1(1) show ?thesis by simp
  qed
qed

lemma list_dir_outcome:
  "shallow n sys d la rec \<Longrightarrow> count_only s = c \<Longrightarrow>
   (list_dir n sys d ll la rec s = Inl Crashed \<and> ll \<and> \<not> c \<and> (\<exists>t. localtime sys t = None))
   \<or> (\<exists>s'. list_dir n sys d ll la rec s = Inr s' \<and> count_only s' = c)"
proof (induction n arbitrary: d s)
  case 0
  then show ?case by simp
next
  case (Suc n)
  let ?h = "if rec then endl Header (put (d @ '':'') s) else s"
  let ?G = "ll \<and> \<not> c \<and> (\<exists>t. localtime sys t = None)"
  have h: "count_only ?h = c" using Suc.prems(2) by simp
  show ?case
  proof (cases "opendir sys d")
    case (Inl e)
    with h show ?thesis by (simp add: list_dir_Suc)
  next
    case (Inr es)
    let ?ps = "if rec then take 1024 (found sys d la es) else []"
    from list_entries_outcome [OF h, of sys d ll "visible la es"]
    show ?thesis
    proof
      assume "list_entries sys d ll (visible la es) ?h = Inl Crashed \<and> ?G"
      with Inr show ?thesis by (auto simp: list_dir_Suc)
    next
      assume "\<exists>s'. list_entries sys d ll (visible la es) ?h = Inr s' \<and> count_only s' = c"
      then obtain s2 where s2: "list_entries sys d ll (visible la es) ?h = Inr s2"
        "count_only s2 = c" by blast
      have "(for_subdirs (\<lambda>p. list_dir n sys p ll la rec) ?ps s2 = Inl Crashed \<and> ?G)
          \<or> (\<exists>s'. for_subdirs (\<lambda>p. list_dir n sys p ll la rec) ?ps s2 = Inr s'
                \<and> count_only s' = c)"
      proof (rule for_subdirs_outcome [OF _ s2(2)])
        fix p and s1 :: state
        assume p: "p \<in> set ?ps" and c: "count_only s1 = c"
        from p Suc.prems(1) Inr have "shallow n sys p la rec"
          by (auto simp: list_all_iff split: if_splits)
        from Suc.IH [OF this c]
        show "(list_dir n sys p ll la rec s1 = Inl Crashed \<and> ?G)
            \<or> (\<exists>s'. list_dir n sys p ll la rec s1 = Inr s' \<and> count_only s' = c)" .
      qed
      with Inr s2(1) show ?thesis by (simp add: list_dir_Suc)
    qed
  qed
qed

lemma main_loop_outcome:
  "list_all (\<lambda>a. case lstat sys a of
                    Inl e \<Rightarrow> True
                  | Inr sb \<Rightarrow> if S_ISDIR (st_mode sb) then shallow n sys a la rec else True) args \<Longrightarrow>
   count_only s = c \<Longrightarrow>
   (main_loop n sys ll la rec multi args s = Inl Crashed
      \<and> ll \<and> \<not> c \<and> (\<exists>t. localtime sys t = None))
   \<or> (\<exists>s'. main_loop n sys ll la rec multi args s = Inr s' \<and> count_only s' = c)"
proof (induction args arbitrary: s)
  case Nil
  then show ?case by simp
next
  case (Cons a rest)
  let ?G = "ll \<and> \<not> c \<and> (\<exists>t. localtime sys t = None)"
  from Cons.prems(1) have rest: "list_all (\<lambda>a. case lstat sys a of
                    Inl e \<Rightarrow> True
                  | Inr sb \<Rightarrow> if S_ISDIR (st_mode sb) then shallow n sys a la rec else True) rest"
    by simp
  note IH = Cons.IH [OF rest]
  show ?case
  proof (cases "lstat sys a")
    case (Inl e)
    have "count_only (handle_error sys ''cannot access'' a e s) = c"
      using Cons.prems(2) by simp
    from IH [OF this] Inl show ?thesis by (simp add: main_loop_Cons)
  next
    case (Inr sb)
    show ?thesis
    proof (cases "S_ISDIR (st_mode sb)")
      case True
      let ?h = "if multi then endl Header (put (a @ '':'') s) else s"
      from True Inr Cons.prems(1) have sh: "shallow n sys a la rec" by simp
      have h: "count_only ?h = c" using Cons.prems(2) by simp
      from list_dir_outcome [OF sh h, of ll]
      show ?thesis
      proof
        assume "list_dir n sys a ll la rec ?h = Inl Crashed \<and> ?G"
        with Inr True show ?thesis by (auto simp: main_loop_Cons)
      next
        assume "\<exists>s'. list_dir n sys a ll la rec ?h = Inr s' \<and> count_only s' = c"
        then obtain s4 where s4: "list_dir n sys a ll la rec ?h = Inr s4" "count_only s4 = c"
          by blast
        have "count_only (if rest \<noteq> [] then endl Blank s4 else s4) = c"
          using s4(2) by simp
        from IH [OF this] s4(1) Inr True show ?thesis by (simp add: main_loop_Cons)
      qed
    next
      case False
      from list_file_outcome [OF Cons.prems(2), of sys a a ll]
      show ?thesis
      proof
        assume "list_file sys a a ll s = Inl Crashed \<and> ?G"
        with Inr False show ?thesis by (auto simp: main_loop_Cons)
      next
        assume "\<exists>s'. list_file sys a a ll s = Inr s' \<and> count_only s' = c"
        then obtain s3 where s3: "list_file sys a a ll s = Inr s3" "count_only s3 = c" by blast
        from IH [OF s3(2)] s3(1) Inr False show ?thesis by (simp add: main_loop_Cons)
      qed
    qed
  qed
qed

lemma main_outcome:
  assumes "shallow_main n sys la rec args"
  shows "(main n sys ll la rec c h args = Inl Crashed
            \<and> ll \<and> \<not> c \<and> (\<exists>t. localtime sys t = None))
     \<or> (\<exists>s'. main n sys ll la rec c h args = Inr s')"
proof (cases "args = []")
  case True
  let ?h = "if rec then endl Header (put ''.:'' (init c h)) else init c h"
  from True assms have sh: "shallow n sys ''.'' la rec" by (simp add: shallow_main_def)
  have h: "count_only ?h = c" by simp
  from list_dir_outcome [OF sh h, of ll] True show ?thesis
    by (auto simp: main_def)
next
  case False
  with assms have l: "list_all (\<lambda>a. case lstat sys a of
        Inl e \<Rightarrow> True
      | Inr sb \<Rightarrow> if S_ISDIR (st_mode sb) then shallow n sys a la rec else True) args"
    by (simp add: shallow_main_def)
  have i: "count_only (init c h) = c" by simp
  from main_loop_outcome [OF l i, of ll "1 < length args"] False show ?thesis
    by (auto simp: main_def)
qed

lemma list_dir_returns:
  assumes "shallow n sys d la rec" "c \<or> \<not> ll \<or> (\<forall>t. localtime sys t \<noteq> None)"
    "count_only s = c"
  shows "\<exists>s'. list_dir n sys d ll la rec s = Inr s' \<and> count_only s' = c"
  using list_dir_outcome [OF assms(1,3), of ll] assms(2) by blast

lemma main_returns:
  assumes "shallow_main n sys la rec args" "c \<or> \<not> ll \<or> (\<forall>t. localtime sys t \<noteq> None)"
  shows "\<exists>s'. main n sys ll la rec c h args = Inr s'"
  using main_outcome [OF assms(1), of ll c h] assms(2) by blast

lemma shallow_flat: "shallow (Suc n) sys d la False"
  by (simp split: sum.split)

lemma shallow_main_flat: "shallow_main (Suc n) sys la False args"
  by (simp add: shallow_main_def list_all_iff split: sum.split)

subsection \<open>Targets that cannot be examined\<close>

lemma bits_kept_mask: "bits_kept x y \<Longrightarrow> x AND m = m \<Longrightarrow> y AND m = m"
proof (rule bit_eqI)
  fix i
  assume k: "bits_kept x y" and m: "x AND m = m"
  have "bit m i \<Longrightarrow> bit y i"
  proof -
    assume "bit m i"
    with m have "bit (x AND m) i" by simp
    then have "bit x i" by (simp add: bit_and_iff)
    with k show "bit y i" by (simp add: bits_kept_bit)
  qed
  then show "bit (y AND m) i = bit m i" by (auto simp: bit_and_iff)
qed

lemma or_and_same: "(x OR m) AND m = (m :: 32 word)"
  by (simp add: bit.conj_disj_distrib2)

lemma main_loop_failed:
  "a \<in> set args \<Longrightarrow> lstat sys a = Inl e \<Longrightarrow>
   main_loop n sys ll la rec multi args s = Inr s' \<Longrightarrow>
   err_code s' AND (if e = ENOENT then 72 else if e = EACCES \<or> e = EPERM then 80 else 96)
     = (if e = ENOENT then 72 else if e = EACCES \<or> e = EPERM then 80 else 96)"
proof (induction args arbitrary: s)
  case Nil
  then show ?case by simp
next
  case (Cons x rest)
  let ?m = "if e = ENOENT then 72 else if e = EACCES \<or> e = EPERM then 80 else 96 :: 32 word"
  show ?case
  proof (cases "x = a")
    case True
    with Cons.prems have r: "main_loop n sys ll la rec multi rest
        (handle_error sys ''cannot access'' a e s) = Inr s'"
      by (simp add: main_loop_Cons)
    have "bits_kept (err_code (handle_error sys ''cannot access'' a e s)) (err_code s')"
      by (rule main_loop_kept [OF r])
    moreover have "err_code (handle_error sys ''cannot access'' a e s) AND ?m = ?m"
      unfolding handle_error_fields by (rule or_and_same)
    ultimately show ?thesis by (rule bits_kept_mask)
  next
    case False
    with Cons.prems have a: "a \<in> set rest" by simp
    from Cons.prems(3) obtain s1 where "main_loop n sys ll la rec multi rest s1 = Inr s'"
      by (auto simp: main_loop_Cons split: sum.splits if_splits)
    from Cons.IH [OF a Cons.prems(2) this] show ?thesis .
  qed
qed

lemma main_failed:
  assumes "a \<in> set args" "lstat sys a = Inl e" "main n sys ll la rec c h args = Inr s'"
  shows "err_code s' AND (if e = ENOENT then 72 else if e = EACCES \<or> e = EPERM then 80 else 96)
     = (if e = ENOENT then 72 else if e = EACCES \<or> e = EPERM then 80 else 96)"
proof -
  from assms(1) have ne: "args \<noteq> []" by auto
  with assms(3) obtain s1 where s1: "main_loop n sys ll la rec (1 < length args) args (init c h)
      = Inr s1" and e: "err_code s' = err_code s1"
    by (auto simp: main_def split: sum.splits if_splits)
  from main_loop_failed [OF assms(1,2) s1] e show ?thesis by simp
qed

lemma status_parts:
  fixes x :: "32 word"
  shows "x AND 72 = 72 \<Longrightarrow> (x AND 255) AND 64 = 64 \<and> (x AND 255) AND 8 = 8"
    and "x AND 80 = 80 \<Longrightarrow> (x AND 255) AND 64 = 64 \<and> (x AND 255) AND 16 = 16"
    and "x AND 96 = 96 \<Longrightarrow> (x AND 255) AND 64 = 64 \<and> (x AND 255) AND 32 = 32"
proof -
  have a: "(x AND 255) AND 64 = (x AND 72) AND 64" "(x AND 255) AND 8 = (x AND 72) AND 8"
    "(x AND 255) AND 64 = (x AND 80) AND 64" "(x AND 255) AND 16 = (x AND 80) AND 16"
    "(x AND 255) AND 64 = (x AND 96) AND 64" "(x AND 255) AND 32 = (x AND 96) AND 32"
    by (simp_all add: and.assoc)
  show "x AND 72 = 72 \<Longrightarrow> (x AND 255) AND 64 = 64 \<and> (x AND 255) AND 8 = 8"
    using a(1,2) by simp
  show "x AND 80 = 80 \<Longrightarrow> (x AND 255) AND 64 = 64 \<and> (x AND 255) AND 16 = 16"
    using a(3,4) by simp
  show "x AND 96 = 96 \<Longrightarrow> (x AND 255) AND 64 = 64 \<and> (x AND 255) AND 32 = 32"
    using a(5,6) by simp
qed

subsection \<open>The body of \<^verbatim>\<open>main\<close>\<close>

lemma sint_of_nat_small: "k < 2 ^ 31 \<Longrightarrow> sint (of_nat k :: 32 word) = int k"
  by (simp add: signed_of_nat signed_take_bit_int_eq_self)

lemma total_text: "k < 2 ^ 31 \<Longrightarrow> show_int (sint (of_nat k :: 32 word)) = digits k"
  by (simp add: sint_of_nat_small show_int_def)

lemma main_body_count:
  assumes "(if args = []
      then list_dir n sys ''.'' ll la rec
             (if rec then endl Header (put ''.:'' (init True h)) else init True h)
      else main_loop n sys ll la rec (1 < length args) args (init True h)) = Inr sc"
  shows "count_only sc \<and> file_count sc = of_nat (handed_main n sys la rec args)"
proof (cases "args = []")
  case True
  let ?h = "if rec then endl Header (put ''.:'' (init True h)) else init True h"
  have h: "count_only ?h" "file_count ?h = 0" by simp_all
  from True assms have "list_dir n sys ''.'' ll la rec ?h = Inr sc" by simp
  from list_dir_count [OF h(1) this] h(2) True show ?thesis
    by (simp add: handed_main_def)
next
  case False
  with assms have "main_loop n sys ll la rec (1 < length args) args (init True h) = Inr sc"
    by simp
  from main_loop_count [OF _ this] False show ?thesis
    by (simp add: handed_main_def)
qed

lemma main_body_wrote:
  assumes "(if args = []
      then list_dir n sys ''.'' ll la rec
             (if rec then endl Header (put ''.:'' (init False h)) else init False h)
      else main_loop n sys ll la rec (1 < length args) args (init False h)) = Inr sb"
  shows "wrote (handed_main n sys la rec args + missing sys args) (init False h) sb"
proof (cases "args = []")
  case True
  let ?h = "if rec then endl Header (put ''.:'' (init False h)) else init False h"
  have h: "wrote 0 (init False h) ?h" by (simp add: wrote_line wrote_refl)
  from True assms have "list_dir n sys ''.'' ll la rec ?h = Inr sb" by simp
  from list_dir_wrote [OF _ _ this] wrote_flags [OF h]
  have "wrote (walk_count n sys ''.'' la rec) ?h sb" by simp
  from wrote_trans [OF h this] True show ?thesis
    by (simp add: handed_main_def missing_def)
next
  case False
  with assms have "main_loop n sys ll la rec (1 < length args) args (init False h) = Inr sb"
    by simp
  from main_loop_wrote [OF _ _ this] False show ?thesis
    by (simp add: handed_main_def)
qed

lemma main_count_only:
  "main n sys ll la rec True h args =
     (case (if args = []
            then list_dir n sys ''.'' ll la rec
                   (if rec then endl Header (put ''.:'' (init True h)) else init True h)
            else main_loop n sys ll la rec (1 < length args) args (init True h)) of
        Inl e \<Rightarrow> Inl e
      | Inr s \<Rightarrow> Inr (endl Total (put (show_int (sint (file_count s))) s)))"
proof -
  have "\<And>s. (if args = []
            then list_dir n sys ''.'' ll la rec
                   (if rec then endl Header (put ''.:'' (init True h)) else init True h)
            else main_loop n sys ll la rec (1 < length args) args (init True h)) = Inr s
      \<Longrightarrow> count_only s"
    by (rule main_body_count [THEN conjunct1])
  then show ?thesis
    unfolding main_def by (auto split: sum.split)
qed

lemma main_listing:
  "main n sys ll la rec False h args =
     (if args = []
      then list_dir n sys ''.'' ll la rec
             (if rec then endl Header (put ''.:'' (init False h)) else init False h)
      else main_loop n sys ll la rec (1 < length args) args (init False h))"
proof -
  have "\<And>s. (if args = []
            then list_dir n sys ''.'' ll la rec
                   (if rec then endl Header (put ''.:'' (init False h)) else init False h)
            else main_loop n sys ll la rec (1 < length args) args (init False h)) = Inr s
      \<Longrightarrow> \<not> count_only s"
    using main_body_wrote [THEN wrote_flags] by blast
  then show ?thesis
    unfolding main_def by (auto split: sum.split)
qed

lemma main_twin:
  "beside (ll' \<and> (\<exists>t. localtime sys t = None))
     (\<lambda>sc sb. \<exists>Z. out sc = Z @ [(Total, show_int (sint (file_count sc)))]
          \<and> file_count sc = of_nat (handed_main n sys la rec args)
          \<and> filter (\<lambda>l. fst l = Entry) Z = []
          \<and> filter (\<lambda>l. \<not> entry_line l) Z = filter (\<lambda>l. \<not> entry_line l) (out sb)
          \<and> length (filter entry_line Z) = missing sys args
          \<and> length (filter entry_line (out sb)) = handed_main n sys la rec args + missing sys args)
     (main n sys ll la rec True h args) (main n sys ll' la rec False h' args)"
proof -
  let ?c = "if args = []
      then list_dir n sys ''.'' ll la rec
             (if rec then endl Header (put ''.:'' (init True h)) else init True h)
      else main_loop n sys ll la rec (1 < length args) args (init True h)"
  let ?b = "if args = []
      then list_dir n sys ''.'' ll' la rec
             (if rec then endl Header (put ''.:'' (init False h')) else init False h')
      else main_loop n sys ll' la rec (1 < length args) args (init False h')"
  let ?g = "ll' \<and> (\<exists>t. localtime sys t = None)"
  have r: "beside ?g (mtwin (init True h) (init False h') (missing sys args)) ?c ?b"
    by (rule mtwin_main_body)
  show ?thesis
  proof (cases ?b)
    case (Inl e)
    with r show ?thesis
      unfolding main_count_only main_listing by (cases ?c) (auto simp: beside_def)
  next
    case b: (Inr sb)
    with r obtain sc where sc: "?c = Inr sc"
      "mtwin (init True h) (init False h') (missing sys args) sc sb"
      by (cases ?c) (auto simp: beside_def)
    from sc(2) obtain Y Z where f: "pending sc = []"
      and Y: "out sb = Y" "out sc = Z" "filter (\<lambda>l. fst l = Entry) Z = []"
      "filter (\<lambda>l. \<not> entry_line l) Z = filter (\<lambda>l. \<not> entry_line l) Y"
      "length (filter entry_line Z) = missing sys args"
      unfolding mtwin_def by auto
    from main_body_count [OF sc(1)]
    have k: "file_count sc = of_nat (handed_main n sys la rec args)" by simp
    from main_body_wrote [OF b]
    have w: "length (filter entry_line (out sb)) = handed_main n sys la rec args + missing sys args"
      by (auto simp: wrote_def)
    let ?sc = "endl Total (put (show_int (sint (file_count sc))) sc)"
    have "out ?sc = out sc @ [(Total, show_int (sint (file_count ?sc)))]"
      using f by simp
    with Y k w have "\<exists>Z. out ?sc = Z @ [(Total, show_int (sint (file_count ?sc)))]
          \<and> file_count ?sc = of_nat (handed_main n sys la rec args)
          \<and> filter (\<lambda>l. fst l = Entry) Z = []
          \<and> filter (\<lambda>l. \<not> entry_line l) Z = filter (\<lambda>l. \<not> entry_line l) (out sb)
          \<and> length (filter entry_line Z) = missing sys args
          \<and> length (filter entry_line (out sb)) = handed_main n sys la rec args + missing sys args"
      by (intro exI [of _ "out sc"]) simp
    with sc(1) b show ?thesis
      unfolding main_count_only main_listing by (simp add: beside_def)
  qed
qed

section \<open>Owner and group names (claim C1)\<close>

text \<open>
  C1, as stated, fails: a name-lookup failure sets no bit of its own. It sets 64 and 32,
  and 32 is the bit that \<^verbatim>\<open>handle_error\<close> sets for a path-access failure that is
  neither not-found nor permission-denied. Listing a file whose owner has no name leaves
  the same status as a failed \<^verbatim>\<open>lstat\<close> with \<^verbatim>\<open>errno = EIO\<close> (5).
\<close>

theorem C1_shared_bit_counterexample:
  "map_sum id err_code (list_file demo_os ''orphan'' ''orphan'' True (init False False)) = Inr 96
   \<and> err_code (handle_error demo_os ''cannot access'' ''orphan'' 5 (init False False)) = 96
   \<and> (96 :: 32 word) = 64 OR 32"
proof -
  have "lookup_bits demo_os orphan_stat = 96"
    by (simp add: lookup_bits_def orphan_stat_def)
  moreover from list_file_long_out [OF _ orphan_lstat orphan_date, of "init False False" "''orphan''"]
  obtain s' where "list_file demo_os ''orphan'' ''orphan'' True (init False False) = Inr s'"
    "err_code s' = err_code (init False False) OR lookup_bits demo_os orphan_stat"
    by auto
  ultimately show ?thesis
    by (simp add: ENOENT_def EACCES_def EPERM_def)
qed

text \<open>
  C1, amended: for every long-format listing of an entry whose \<^verbatim>\<open>lstat\<close> succeeds,
  whose owner or group has no name and whose modification time \<^verbatim>\<open>localtime\<close>
  converts, the line is still printed, with the numeric id (read as a signed decimal,
  padded to eight columns) in the place of the name, and \<^verbatim>\<open>err_code\<close> gains the bits
  64 and 32 (together 96). The not-found bit (8) and the permission-denied bit (16) are
  left as they were; bit 32 is the one that path-access failures of the remaining kind
  set as well. \<open>long_text\<close> is the line, field by field. For a modification time that
  \<^verbatim>\<open>localtime\<close> does not convert the process is killed before the line is complete.
\<close>

theorem C1_name_lookup_failure:
  assumes "\<not> count_only s" and "lstat sys p = Inr sb"
    and "getpwuid sys (st_uid sb) = None \<or> getgrgid sys (st_gid sb) = None"
  shows "(case date_string sys (st_mtim sb) of
            Inl e \<Rightarrow> list_file sys p nm True s = Inl Crashed
          | Inr mod_time \<Rightarrow>
              (\<exists>s'. list_file sys p nm True s = Inr s'
                 \<and> out s' = out s @ [(Entry, pending s
                       @ long_text sys sb p nm (human_readable s) mod_time)]
                 \<and> err_code s' = err_code s OR 96
                 \<and> err_code s' AND 24 = err_code s AND 24))"
proof (cases "date_string sys (st_mtim sb)")
  case (Inl e)
  then have "e = Crashed" by (simp add: date_string_cases)
  with Inl list_file_long_crash [OF assms(1,2) Inl, of nm] show ?thesis by simp
next
  case (Inr mod_time)
  have "(err_code s OR 96) AND 24 = err_code s AND 24"
    by (simp add: bit.conj_disj_distrib2)
  with list_file_long_out [OF assms(1,2) Inr, of nm] assms(3) Inr show ?thesis
    by (auto simp: lookup_bits_def)
qed

theorem C1_name_lookup_failure_witness:
  "\<not> count_only (init False False) \<and> lstat demo_os ''orphan'' = Inr orphan_stat
   \<and> getpwuid demo_os (st_uid orphan_stat) = None
   \<and> date_string demo_os (st_mtim orphan_stat) = Inr ''%b %e %Y''
   \<and> (\<exists>s'. list_file demo_os ''orphan'' ''orphan'' True (init False False) = Inr s'
        \<and> out s' = [(Entry, ''-rw-r--r-- 1 4242     4243            0 %b %e %Y orphan'')]
        \<and> err_code s' = 96)"
proof -
  have h1: "\<not> count_only (init False False)" by simp
  have h2: "lstat demo_os ''orphan'' = Inr orphan_stat" by (rule orphan_lstat)
  have u: "getpwuid demo_os (st_uid orphan_stat) = None" by (simp add: orphan_stat_def)
  then have h3: "getpwuid demo_os (st_uid orphan_stat) = None
      \<or> getgrgid demo_os (st_gid orphan_stat) = None" by simp
  from C1_name_lookup_failure [OF h1 h2 h3, of "''orphan''"] orphan_line
  have "\<exists>s'. list_file demo_os ''orphan'' ''orphan'' True (init False False) = Inr s'
        \<and> out s' = [(Entry, ''-rw-r--r-- 1 4242     4243            0 %b %e %Y orphan'')]
        \<and> err_code s' = 96"
    by (auto simp: orphan_date)
  with h1 h2 u orphan_date show ?thesis by (intro conjI)
qed

section \<open>The total of a count-only run (claim C2)\<close>

text \<open>
  C2, as stated, fails. In the run below over a directory that can be read but not
  searched and a target that does not exist, count-only mode prints the total 1, while
  the same run in bare mode writes four lines, none of them the line of an entry: a
  header, the diagnostic for the entry that could not be examined, a blank separator and
  the diagnostic for the missing target.
\<close>

theorem C2_total_counterexample:
  "map_sum id out (main (Suc 0) demo_os False False False True False [''noexec'', ''nope''])
     = Inr [(Header, ''noexec:''), (Blank, []),
            (Diag, ''ls: cannot access nope: No such file or directory''), (Total, ''1'')]
   \<and> map_sum id out (main (Suc 0) demo_os False False False False False [''noexec'', ''nope''])
     = Inr [(Header, ''noexec:''), (Diag, ''ls: cannot access noexec/x: Permission denied''),
            (Blank, []), (Diag, ''ls: cannot access nope: No such file or directory'')]"
  by (simp add: run_simps show_int_def digits.simps cong: for_subdirs_weak_cong)

text \<open>
  C2, amended: a run in count-only mode and the same run in bare mode without count-only
  both return or both stop at the depth bound, and a run whose directories nest no deeper
  than the bound returns (a run that is not recursive does so with any bound but 0). The
  count-only run prints no line of an entry, and its last line is the total: the number of
  entries handed to \<^verbatim>\<open>list_file\<close> (\<open>handed_main\<close>: every visible entry of every
  directory the walk opens and every target that exists and is no directory), as a C
  \<^verbatim>\<open>int\<close>, hence that very number in decimal digits when it is below \<open>2^31\<close>. In the
  bare run each of these entries gives exactly one line, its own or the
  \<^verbatim>\<open>cannot access\<close> diagnostic printed in its place when it cannot be examined: the
  bare run has as many per-entry lines as entries were handed over, plus one for each
  target that itself fails \<^verbatim>\<open>lstat\<close> (\<open>missing\<close>). The diagnostics of those targets
  are the only per-entry lines of the count-only run, and all other lines (headers, blank
  separators, open-failure diagnostics) are the same in both runs, in the same order.
\<close>

theorem C2_count_total:
  "rel_sum (=)
     (\<lambda>sc sb. \<exists>Z. out sc = Z @ [(Total, show_int (sint (file_count sc)))]
          \<and> file_count sc = of_nat (handed_main n sys la rec args)
          \<and> (handed_main n sys la rec args < 2 ^ 31 \<longrightarrow>
               show_int (sint (file_count sc)) = digits (handed_main n sys la rec args))
          \<and> filter (\<lambda>l. fst l = Entry) Z = []
          \<and> filter (\<lambda>l. \<not> entry_line l) Z = filter (\<lambda>l. \<not> entry_line l) (out sb)
          \<and> length (filter entry_line Z) = missing sys args
          \<and> length (filter entry_line (out sb))
              = handed_main n sys la rec args + missing sys args)
     (main n sys ll la rec True h args) (main n sys False la rec False h' args)
   \<and> (shallow_main n sys la rec args \<longrightarrow> (\<exists>sc. main n sys ll la rec True h args = Inr sc))
   \<and> shallow_main (Suc n) sys la False args
   \<and> (\<not> count_only s \<and> pending s = [] \<longrightarrow>
        (\<exists>s' l. list_file sys p nm False s = Inr s' \<and> out s' = out s @ [l] \<and> entry_line l))"
proof -
  let ?R = "\<lambda>sc sb. \<exists>Z. out sc = Z @ [(Total, show_int (sint (file_count sc)))]
          \<and> file_count sc = of_nat (handed_main n sys la rec args)
          \<and> filter (\<lambda>l. fst l = Entry) Z = []
          \<and> filter (\<lambda>l. \<not> entry_line l) Z = filter (\<lambda>l. \<not> entry_line l) (out sb)
          \<and> length (filter entry_line Z) = missing sys args
          \<and> length (filter entry_line (out sb))
              = handed_main n sys la rec args + missing sys args"
  have "beside (False \<and> (\<exists>t. localtime sys t = None)) ?R
      (main n sys ll la rec True h args) (main n sys False la rec False h' args)"
    by (rule main_twin)
  then have "rel_sum (=) ?R
      (main n sys ll la rec True h args) (main n sys False la rec False h' args)"
    by (simp add: beside_def)
  then have 1: "rel_sum (=)
     (\<lambda>sc sb. \<exists>Z. out sc = Z @ [(Total, show_int (sint (file_count sc)))]
          \<and> file_count sc = of_nat (handed_main n sys la rec args)
          \<and> (handed_main n sys la rec args < 2 ^ 31 \<longrightarrow>
               show_int (sint (file_count sc)) = digits (handed_main n sys la rec args))
          \<and> filter (\<lambda>l. fst l = Entry) Z = []
          \<and> filter (\<lambda>l. \<not> entry_line l) Z = filter (\<lambda>l. \<not> entry_line l) (out sb)
          \<and> length (filter entry_line Z) = missing sys args
          \<and> length (filter entry_line (out sb))
              = handed_main n sys la rec args + missing sys args)
     (main n sys ll la rec True h args) (main n sys False la rec False h' args)"
    by (rule sum.rel_mono_strong) (auto simp: total_text)
  have 2: "shallow_main n sys la rec args \<longrightarrow> (\<exists>sc. main n sys ll la rec True h args = Inr sc)"
    using main_returns [of n sys la rec args True ll h] by simp
  have 3: "shallow_main (Suc n) sys la False args" by (rule shallow_main_flat)
  have 4: "\<not> count_only s \<and> pending s = [] \<longrightarrow>
        (\<exists>s' l. list_file sys p nm False s = Inr s' \<and> out s' = out s @ [l] \<and> entry_line l)"
    using list_file_noncount [of s False sys p nm] by auto
  from 1 2 3 4 show ?thesis by (intro conjI)
qed

theorem C2_count_total_witness:
  "shallow_main (Suc (Suc 0)) demo_os False True [''root'', ''nope'']
   \<and> handed_main (Suc (Suc 0)) demo_os False True [''root'', ''nope''] = 3
   \<and> missing demo_os [''root'', ''nope''] = 1
   \<and> map_sum id out (main (Suc (Suc 0)) demo_os False False True True False [''root'', ''nope''])
       = Inr [(Header, ''root:''), (Header, ''root:''), (Blank, []), (Header, ''root/sub:''),
              (Blank, []), (Diag, ''ls: cannot access nope: No such file or directory''),
              (Total, ''3'')]
   \<and> map_sum id out (main (Suc (Suc 0)) demo_os False False True False False [''root'', ''nope''])
       = Inr [(Header, ''root:''), (Header, ''root:''), (Entry, ''a.txt''), (Entry, ''sub/''),
              (Blank, []), (Header, ''root/sub:''), (Entry, ''b.txt''), (Blank, []),
              (Diag, ''ls: cannot access nope: No such file or directory'')]
   \<and> rel_sum (=)
        (\<lambda>sc sb. \<exists>Z. out sc = Z @ [(Total, show_int (sint (file_count sc)))]
           \<and> file_count sc = 3
           \<and> show_int (sint (file_count sc)) = digits 3
           \<and> filter (\<lambda>l. fst l = Entry) Z = []
           \<and> filter (\<lambda>l. \<not> entry_line l) Z = filter (\<lambda>l. \<not> entry_line l) (out sb)
           \<and> length (filter entry_line Z) = 1
           \<and> length (filter entry_line (out sb)) = 3 + 1)
        (main (Suc (Suc 0)) demo_os False False True True False [''root'', ''nope''])
        (main (Suc (Suc 0)) demo_os False False True False False [''root'', ''nope''])
   \<and> (\<exists>sc. main (Suc (Suc 0)) demo_os False False True True False [''root'', ''nope''] = Inr sc)
   \<and> \<not> count_only (init False False) \<and> pending (init False False) = []
   \<and> (\<exists>s' l. list_file demo_os ''root/a.txt'' ''a.txt'' False (init False False) = Inr s'
         \<and> out s' = out (init False False) @ [l] \<and> entry_line l)"
proof -
  have sh: "shallow_main (Suc (Suc 0)) demo_os False True [''root'', ''nope'']"
    by (simp add: shallow_main_def found_def visible_def hidden_def is_subdir_def fullpath_def
        demo_lstat_def demo_opendir_def ENOENT_def)
  have hd: "handed_main (Suc (Suc 0)) demo_os False True [''root'', ''nope''] = 3"
    by (simp add: handed_main_def handed_def found_def visible_def hidden_def is_subdir_def
        fullpath_def demo_lstat_def demo_opendir_def ENOENT_def)
  have ms: "missing demo_os [''root'', ''nope''] = 1"
    by (simp add: missing_def demo_lstat_def)
  have c: "map_sum id out (main (Suc (Suc 0)) demo_os False False True True False [''root'', ''nope''])
       = Inr [(Header, ''root:''), (Header, ''root:''), (Blank, []), (Header, ''root/sub:''),
              (Blank, []), (Diag, ''ls: cannot access nope: No such file or directory''),
              (Total, ''3'')]"
    by (simp add: run_simps show_int_def digits.simps cong: for_subdirs_weak_cong)
  have b: "map_sum id out (main (Suc (Suc 0)) demo_os False False True False False [''root'', ''nope''])
       = Inr [(Header, ''root:''), (Header, ''root:''), (Entry, ''a.txt''), (Entry, ''sub/''),
              (Blank, []), (Header, ''root/sub:''), (Entry, ''b.txt''), (Blank, []),
              (Diag, ''ls: cannot access nope: No such file or directory'')]"
    by (simp add: run_simps cong: for_subdirs_weak_cong)
  have f: "\<not> count_only (init False False)" "pending (init False False) = []" by simp_all
  note t = C2_count_total [where n = "Suc (Suc 0)" and sys = demo_os and la = False and rec = True
      and args = "[''root'', ''nope'']" and ll = False and h = False and h' = False
      and s = "init False False" and p = "''root/a.txt''" and nm = "''a.txt''"]
  from t hd ms have q: "rel_sum (=)
      (\<lambda>sc sb. \<exists>Z. out sc = Z @ [(Total, show_int (sint (file_count sc)))]
         \<and> file_count sc = 3
         \<and> show_int (sint (file_count sc)) = digits 3
         \<and> filter (\<lambda>l. fst l = Entry) Z = []
         \<and> filter (\<lambda>l. \<not> entry_line l) Z = filter (\<lambda>l. \<not> entry_line l) (out sb)
         \<and> length (filter entry_line Z) = 1
         \<and> length (filter entry_line (out sb)) = 3 + 1)
      (main (Suc (Suc 0)) demo_os False False True True False [''root'', ''nope''])
      (main (Suc (Suc 0)) demo_os False False True False False [''root'', ''nope''])"
    by simp
  from t sh have r: "\<exists>sc. main (Suc (Suc 0)) demo_os False False True True False [''root'', ''nope'']
      = Inr sc"
    by blast
  from t f have l: "\<exists>s' l. list_file demo_os ''root/a.txt'' ''a.txt'' False (init False False) = Inr s'
         \<and> out s' = out (init False False) @ [l] \<and> entry_line l"
    by blast
  from sh hd ms c b q r f l show ?thesis by (intro conjI)
qed

section \<open>Sizes (claim C3)\<close>

text \<open>
  C3, as stated, fails for sizes below 1024: the renderer prints the bare integer, with no
  unit letter. 0 is rendered as \<^verbatim>\<open>0\<close> and 1023 as \<^verbatim>\<open>1023\<close>, not as \<^verbatim>\<open>0B\<close> and
  \<^verbatim>\<open>1023B\<close>.
\<close>

theorem C3_no_byte_suffix_counterexample:
  "format_size_human 0 16 = ''0'' \<and> format_size_human 1023 16 = ''1023''
   \<and> ''0'' \<noteq> ''0B'' \<and> ''1023'' \<noteq> ''1023B''"
  by (simp add: format_size_human_examples)

text \<open>
  C3, amended: the human-readable size renderer maps 0 to \<^verbatim>\<open>0\<close>, 1023 to \<^verbatim>\<open>1023\<close>,
  1024 to \<^verbatim>\<open>1.0K\<close>, 1536 to \<^verbatim>\<open>1.5K\<close> and 1048576 to \<^verbatim>\<open>1.0M\<close>. It divides by 1024
  repeatedly through the units B, K, M, G, T, P, E: a size below 1024 is printed as the
  bare integer, with no unit; a size that has been divided \<open>k\<close> times (\<open>k\<close> from 1 to 6,
  stopping at the first quotient below 1024 or at E) is printed with one decimal place
  and the \<open>k\<close>-th unit letter. In non-human mode the exact byte count is printed as a
  decimal integer (right-aligned in eight columns) for every size, and the decimal digits
  printed for a number denote that number.
\<close>

theorem C3_size_rendering:
  "format_size_human 0 16 = ''0'' \<and> format_size_human 1023 16 = ''1023''
   \<and> format_size_human 1024 16 = ''1.0K'' \<and> format_size_human 1536 16 = ''1.5K''
   \<and> format_size_human 1048576 16 = ''1.0M''
   \<and> (sint sz < 1024 \<longrightarrow> format_size_human sz 16 = take 15 (show_int (sint sz)))
   \<and> (1 \<le> k \<and> k \<le> 6 \<and> 1024 ^ k \<le> to_double (sint sz)
        \<and> (to_double (sint sz) < 1024 ^ Suc k \<or> k = 6)
      \<longrightarrow> format_size_human sz 16
            = take 15 (fmt_1f (to_double (sint sz) / 1024 ^ k) @ units ! k))
   \<and> pending (print_size sb (s\<lparr>human_readable := False\<rparr>))
       = pending s @ '' '' @ pad_left 8 (show_int (sint (st_size sb)))
   \<and> decimal (digits n) = n"
  using format_size_human_bytes [of sz] format_size_human_unit [of k sz]
  by (simp add: format_size_human_examples decimal_digits)

theorem C3_size_rendering_witness:
  "sint (5 :: 64 word) < 1024 \<and> format_size_human 5 16 = take 15 (show_int (sint (5 :: 64 word)))
   \<and> (1::nat) \<le> 2 \<and> (2::nat) \<le> 6 \<and> 1024 ^ 2 \<le> to_double (sint (3145728 :: 64 word))
   \<and> to_double (sint (3145728 :: 64 word)) < 1024 ^ Suc 2
   \<and> format_size_human 3145728 16
       = take 15 (fmt_1f (to_double (sint (3145728 :: 64 word)) / 1024 ^ 2) @ units ! 2)
   \<and> format_size_human 3145728 16 = ''3.0M''"
proof -
  have a: "sint (5 :: 64 word) < 1024" by simp
  have b: "(1::nat) \<le> 2 \<and> (2::nat) \<le> 6 \<and> 1024 ^ 2 \<le> to_double (sint (3145728 :: 64 word))
      \<and> (to_double (sint (3145728 :: 64 word)) < 1024 ^ Suc 2 \<or> (2::nat) = 6)"
    by (simp add: to_double_def)
  have c: "take 15 (fmt_1f (to_double (sint (3145728 :: 64 word)) / 1024 ^ 2) @ units ! 2) = ''3.0M''"
    by (simp add: to_double_def fmt_1f_def round_half_even_def units_def Let_def digits.simps)
  from C3_size_rendering [of 5 2] a have "format_size_human 5 16 = take 15 (show_int (sint (5 :: 64 word)))"
    by blast
  moreover from C3_size_rendering [of 3145728 2] b
  have "format_size_human 3145728 16
       = take 15 (fmt_1f (to_double (sint (3145728 :: 64 word)) / 1024 ^ 2) @ units ! 2)"
    by blast
  ultimately show ?thesis using a b c by simp
qed

section \<open>A directory that cannot be opened (claim C4)\<close>

text \<open>
  C4, as stated, fails: for a directory that cannot be opened the walk writes the
  diagnostic to standard output (\<^verbatim>\<open>PRINT_ERROR\<close> is a \<^verbatim>\<open>printf\<close>), and in recursive
  mode it has already written the header of the directory before it tries to open it.
\<close>

theorem C4_locked_directory_counterexample:
  "map_sum id out (list_dir (Suc 0) demo_os ''locked'' False False True (init False False)) =
     Inr [(Header, ''locked:''),
          (Diag, ''ls: Error opening directory locked: Permission denied'')]
   \<and> map_sum id out (list_dir (Suc 0) demo_os ''locked'' False False False (init False False)) =
     Inr [(Diag, ''ls: Error opening directory locked: Permission denied'')]"
  by (simp add: run_simps cong: for_subdirs_weak_cong)

text \<open>
  C4, amended: for every directory whose stream cannot be opened, and for every
  configuration, the walk returns after writing exactly one diagnostic line, preceded in
  recursive mode by the header line of the directory; it lists no entry, counts nothing,
  does not recurse, and records the failure: the general-error bit and the cause bit of
  the failure (permission-denied for \<^verbatim>\<open>EACCES\<close> and \<^verbatim>\<open>EPERM\<close>).
\<close>

theorem C4_open_failure:
  assumes "opendir sys d = Inl e" and "pending s = []"
  shows "\<exists>s'. list_dir (Suc n) sys d ll la rec s = Inr s'
     \<and> out s' = out s @ (if rec then [(Header, d @ '':'')] else [])
               @ [(Diag, ''ls: Error opening directory '' @ d @ '': '' @ strerror sys e)]
     \<and> pending s' = []
     \<and> file_count s' = file_count s
     \<and> err_code s' = err_code s OR 64 OR
          (if e = ENOENT then 8 else if e = EACCES \<or> e = EPERM then 16 else 32)"
  using assms by (simp add: list_dir_Suc or.assoc)

theorem C4_open_failure_witness:
  "opendir demo_os ''locked'' = Inl EACCES \<and> pending (init False False) = []
   \<and> (\<exists>s'. list_dir (Suc 0) demo_os ''locked'' True False True (init False False) = Inr s'
     \<and> out s' = [(Header, ''locked:''),
                  (Diag, ''ls: Error opening directory locked: Permission denied'')]
     \<and> pending s' = [] \<and> file_count s' = 0 \<and> err_code s' = 80)"
proof -
  have h: "opendir demo_os ''locked'' = Inl EACCES" "pending (init False False) = []"
    by (simp_all add: demo_opendir_def)
  from C4_open_failure [OF h, of 0 True False True]
  show ?thesis using h
    by (simp add: EACCES_def ENOENT_def EPERM_def ENOTDIR_def)
qed

section \<open>Recursion into subdirectories (claim C5)\<close>

text \<open>
  C5, as stated, fails: the walk keeps the paths of the subdirectories in a table of 1024
  rows of 256 bytes. For a directory whose name has 250 bytes and a subdirectory
  \<^verbatim>\<open>bbbbbbbbbb\<close>, the path \<^verbatim>\<open>dir/bbbbbbbbbb\<close> has 261 bytes; the row keeps its first
  255, and the walk recurses into \<^verbatim>\<open>dir/bbbb\<close>, which does not exist, and never into
  the subdirectory it discovered.
\<close>

theorem C5_long_path_counterexample:
  "map_sum id out (list_dir (Suc (Suc 0)) long_os long_dir False False True (init False False)) =
     Inr [(Header, long_dir @ '':''), (Entry, ''bbbbbbbbbb/''), (Blank, []),
          (Header, long_dir @ ''/bbbb:''),
          (Diag, ''ls: Error opening directory '' @ long_dir
                 @ ''/bbbb: No such file or directory'')]
   \<and> is_subdir long_os long_dir ''bbbbbbbbbb''
   \<and> long_dir @ ''/bbbb'' \<noteq> long_dir @ ''/bbbbbbbbbb''"
  by (simp add: list_dir_Suc found_def visible_def hidden_def
      is_subdir_def fullpath_def list_file_bare ENOENT_def EACCES_def EPERM_def ENOTDIR_def
      cong: for_subdirs_weak_cong)

text \<open>
  C5, amended: in recursive mode, once the pass over the direct entries of a directory
  that could be opened is complete, the walk goes, in the order of discovery, through the
  first 1024 visible entries other than \<^verbatim>\<open>.\<close> and \<^verbatim>\<open>..\<close> that \<^verbatim>\<open>lstat\<close> reports
  as directories, each under the path stored for it (the first 255 bytes of the first 1023
  bytes of \<^verbatim>\<open>dirname/name\<close>; these are \<open>found\<close>): for each it writes a blank line and
  calls itself with the same flags, and that call begins with the header. (A pass that is
  killed while it lists an entry in long format is not complete.)
\<close>

theorem C5_recursion:
  assumes "opendir sys d = Inr es"
  shows "list_dir (Suc n) sys d ll la True s =
           (case list_entries sys d ll (visible la es) (endl Header (put (d @ '':'') s)) of
              Inl e \<Rightarrow> Inl e
            | Inr s2 \<Rightarrow>
                for_subdirs (\<lambda>p. list_dir n sys p ll la True) (take 1024 (found sys d la es)) s2)
     \<and> for_subdirs f [] s1 = Inr s1
     \<and> for_subdirs f (p # ps) s1 =
         (case f p (endl Blank s1) of Inl e \<Rightarrow> Inl e | Inr s2 \<Rightarrow> for_subdirs f ps s2)
     \<and> found sys d la es
         = map (\<lambda>nm. take 255 (take 1023 (d @ ''/'' @ nm)))
             (filter (\<lambda>nm. nm \<noteq> ''.'' \<and> nm \<noteq> ''..''
                \<and> (case lstat sys (take 1023 (d @ ''/'' @ nm)) of
                      Inr sb \<Rightarrow> S_ISDIR (st_mode sb) | Inl e \<Rightarrow> False))
               (filter (\<lambda>nm. \<not> hidden la nm) es))"
  using assms by (simp add: list_dir_Suc found_def visible_def is_subdir_def fullpath_def)

theorem C5_recursion_witness:
  "opendir demo_os ''root'' = Inr [''.'', ''..'', ''a.txt'', ''sub'']
   \<and> found demo_os ''root'' False [''.'', ''..'', ''a.txt'', ''sub''] = [''root/sub'']
   \<and> list_dir (Suc (Suc 0)) demo_os ''root'' False False True (init False False) =
       (case list_entries demo_os ''root'' False (visible False [''.'', ''..'', ''a.txt'', ''sub''])
               (endl Header (put (''root'' @ '':'') (init False False))) of
          Inl e \<Rightarrow> Inl e
        | Inr s2 \<Rightarrow>
            for_subdirs (\<lambda>p. list_dir (Suc 0) demo_os p False False True)
              (take 1024 (found demo_os ''root'' False [''.'', ''..'', ''a.txt'', ''sub''])) s2)
   \<and> map_sum id out (list_dir (Suc (Suc 0)) demo_os ''root'' False False True (init False False)) =
       Inr [(Header, ''root:''), (Entry, ''a.txt''), (Entry, ''sub/''), (Blank, []),
            (Header, ''root/sub:''), (Entry, ''b.txt'')]"
proof -
  have h: "opendir demo_os ''root'' = Inr [''.'', ''..'', ''a.txt'', ''sub'']"
    by (simp add: demo_opendir_def)
  have f: "found demo_os ''root'' False [''.'', ''..'', ''a.txt'', ''sub''] = [''root/sub'']"
    by (simp add: found_def visible_def hidden_def is_subdir_def fullpath_def demo_lstat_def)
  have r: "map_sum id out (list_dir (Suc (Suc 0)) demo_os ''root'' False False True (init False False)) =
       Inr [(Header, ''root:''), (Entry, ''a.txt''), (Entry, ''sub/''), (Blank, []),
            (Header, ''root/sub:''), (Entry, ''b.txt'')]"
    by (simp add: run_simps cong: for_subdirs_weak_cong)
  from C5_recursion [OF h, THEN conjunct1, of "Suc 0" False False "init False False"]
  have "list_dir (Suc (Suc 0)) demo_os ''root'' False False True (init False False) =
       (case list_entries demo_os ''root'' False (visible False [''.'', ''..'', ''a.txt'', ''sub''])
               (endl Header (put (''root'' @ '':'') (init False False))) of
          Inl e \<Rightarrow> Inl e
        | Inr s2 \<Rightarrow>
            for_subdirs (\<lambda>p. list_dir (Suc 0) demo_os p False False True)
              (take 1024 (found demo_os ''root'' False [''.'', ''..'', ''a.txt'', ''sub''])) s2)" .
  with h f r show ?thesis by (intro conjI)
qed

section \<open>Dates (claim C6)\<close>

text \<open>
  C6, as stated, fails in three ways. A modification time exactly one year (31,556,952
  seconds) before the clock is neither in the future nor more than one year in the past,
  and is rendered with the year, not with a clock time. Only the seconds of the two times
  are compared: with the clock at 1700000000 seconds and half a second, a time
  0.999999999 seconds after 1700000000 is in the future and is rendered with a clock
  time. And not every timestamp is rendered: for a time in a year that does not fit an
  \<^verbatim>\<open>int\<close>, \<^verbatim>\<open>localtime\<close> returns NULL, which is passed on to \<^verbatim>\<open>strftime\<close>, and
  the process is killed.
\<close>

theorem C6_exactly_one_year_counterexample:
  "date_string (demo_os\<lparr>now := \<lparr>tv_sec = 31556952, tv_nsec = 0\<rparr>\<rparr>) \<lparr>tv_sec = 0, tv_nsec = 0\<rparr>
     = Inr ''%b %e %Y''
   \<and> \<not> sint (31556952 :: 64 word) < sint (0 :: 64 word)
   \<and> \<not> 31556952 < sint (31556952 :: 64 word) - sint (0 :: 64 word)
   \<and> ''%b %e %Y'' \<noteq> ''%b %e %H:%M''
   \<and> now demo_os = \<lparr>tv_sec = 1700000000, tv_nsec = 500000000\<rparr>
   \<and> date_string demo_os \<lparr>tv_sec = 1700000000, tv_nsec = 999999999\<rparr> = Inr ''%b %e %H:%M''
   \<and> date_string demo_os (st_mtim far_stat) = Inl Crashed
   \<and> list_file demo_os ''far'' ''far'' True (init False False) = Inl Crashed"
proof -
  have "list_file demo_os ''far'' ''far'' True (init False False) = Inl Crashed"
    by (rule list_file_long_crash [OF _ _ far_date]) (simp_all add: demo_lstat_def)
  then show ?thesis
    by (simp add: date_string_format strftime_at_def demo_os_def demo_localtime_def far_stat_def)
qed

text \<open>
  C6, amended: for every modification timestamp that \<^verbatim>\<open>localtime\<close> converts, the date
  is rendered as month, day and year exactly when the seconds of the timestamp are later
  than the seconds of the clock or at least one year (31,556,952 seconds) earlier, and as
  month, day and hour:minute otherwise; the nanoseconds of the two times play no part.
  For a timestamp that \<^verbatim>\<open>localtime\<close> does not convert nothing is rendered: the process
  is killed. In particular, with the clock at 1700000000 seconds, a time 10 seconds in the
  future is rendered with the year, a time 2 days in the past with a clock time, and a
  time 400 days in the past with the year.
\<close>

theorem C6_date_format:
  "(\<forall>v. localtime sys (tv_sec ts) = Some v \<longrightarrow>
       date_string sys ts =
         Inr (strftime sys
                (if sint (tv_sec (now sys)) < sint (tv_sec ts)
                    \<or> 31556952 \<le> sint (tv_sec (now sys)) - sint (tv_sec ts)
                 then ''%b %e %Y'' else ''%b %e %H:%M'') v))
   \<and> (localtime sys (tv_sec ts) = None \<longrightarrow> date_string sys ts = Inl Crashed)
   \<and> (\<forall>v. localtime sys 1700000010 = Some v \<longrightarrow>
        date_string (sys\<lparr>now := \<lparr>tv_sec = 1700000000, tv_nsec = k\<rparr>\<rparr>)
            \<lparr>tv_sec = 1700000010, tv_nsec = j\<rparr> = Inr (strftime sys ''%b %e %Y'' v))
   \<and> (\<forall>v. localtime sys 1699827200 = Some v \<longrightarrow>
        date_string (sys\<lparr>now := \<lparr>tv_sec = 1700000000, tv_nsec = k\<rparr>\<rparr>)
            \<lparr>tv_sec = 1699827200, tv_nsec = j\<rparr> = Inr (strftime sys ''%b %e %H:%M'' v))
   \<and> (\<forall>v. localtime sys 1665440000 = Some v \<longrightarrow>
        date_string (sys\<lparr>now := \<lparr>tv_sec = 1700000000, tv_nsec = k\<rparr>\<rparr>)
            \<lparr>tv_sec = 1665440000, tv_nsec = j\<rparr> = Inr (strftime sys ''%b %e %Y'' v))"
  by (simp add: date_string_format strftime_at_def)

theorem C6_date_format_witness:
  "localtime demo_os (tv_sec \<lparr>tv_sec = 1699827200, tv_nsec = 0\<rparr>)
     = Some \<lparr>tm_sec = 0, tm_min = 0, tm_hour = 0, tm_mday = 1, tm_mon = 0, tm_year = 70,
             tm_wday = 4, tm_yday = 0, tm_isdst = 0\<rparr>
   \<and> date_string demo_os \<lparr>tv_sec = 1699827200, tv_nsec = 0\<rparr> = Inr ''%b %e %H:%M''
   \<and> localtime demo_os (tv_sec \<lparr>tv_sec = 1700000010, tv_nsec = 0\<rparr>)
     = Some \<lparr>tm_sec = 0, tm_min = 0, tm_hour = 0, tm_mday = 1, tm_mon = 0, tm_year = 70,
             tm_wday = 4, tm_yday = 0, tm_isdst = 0\<rparr>
   \<and> date_string demo_os \<lparr>tv_sec = 1700000010, tv_nsec = 0\<rparr> = Inr ''%b %e %Y''
   \<and> localtime demo_os (tv_sec \<lparr>tv_sec = 4611686018427387904, tv_nsec = 0\<rparr>) = None
   \<and> date_string demo_os \<lparr>tv_sec = 4611686018427387904, tv_nsec = 0\<rparr> = Inl Crashed"
proof -
  let ?v = "\<lparr>tm_sec = 0, tm_min = 0, tm_hour = 0, tm_mday = 1, tm_mon = 0, tm_year = 70,
             tm_wday = 4, tm_yday = 0, tm_isdst = 0\<rparr>"
  have a: "localtime demo_os (tv_sec \<lparr>tv_sec = 1699827200, tv_nsec = 0\<rparr>) = Some ?v"
    by (simp add: demo_localtime_def)
  have b: "localtime demo_os (tv_sec \<lparr>tv_sec = 1700000010, tv_nsec = 0\<rparr>) = Some ?v"
    by (simp add: demo_localtime_def)
  have c: "localtime demo_os (tv_sec \<lparr>tv_sec = 4611686018427387904, tv_nsec = 0\<rparr>) = None"
    by (simp add: demo_localtime_def)
  from C6_date_format [where sys = demo_os and ts = "\<lparr>tv_sec = 1699827200, tv_nsec = 0\<rparr>"] a
  have a': "date_string demo_os \<lparr>tv_sec = 1699827200, tv_nsec = 0\<rparr> = Inr ''%b %e %H:%M''"
    by simp
  from C6_date_format [where sys = demo_os and ts = "\<lparr>tv_sec = 1700000010, tv_nsec = 0\<rparr>"] b
  have b': "date_string demo_os \<lparr>tv_sec = 1700000010, tv_nsec = 0\<rparr> = Inr ''%b %e %Y''"
    by simp
  from C6_date_format [where sys = demo_os
      and ts = "\<lparr>tv_sec = 4611686018427387904, tv_nsec = 0\<rparr>"] c
  have c': "date_string demo_os \<lparr>tv_sec = 4611686018427387904, tv_nsec = 0\<rparr> = Inl Crashed"
    by simp
  from a a' b b' c c' show ?thesis by (intro conjI)
qed

section \<open>Headers (claim C7)\<close>

text \<open>
  C7 holds for a single directory named on the command line, and the code breaks it for
  the default target: with recursion enabled and no path argument, \<^verbatim>\<open>main\<close> prints the
  header of the current directory and \<^verbatim>\<open>list_dir\<close> prints it again. The same happens
  for each of several directory targets. The run below is \<^verbatim>\<open>ls -R\<close> in a directory
  that holds the tree \<^verbatim>\<open>root/{a.txt, sub/{b.txt}}\<close>, followed by \<^verbatim>\<open>ls -R root\<close>, which
  visits \<^verbatim>\<open>root\<close> and then \<^verbatim>\<open>root/sub\<close>, each under one header.
\<close>

theorem C7_default_target_header_twice:
  "map_sum id out (main (Suc (Suc (Suc 0))) demo_os False False True False False []) =
     Inr [(Header, ''.:''), (Header, ''.:''), (Entry, ''root/''), (Blank, []),
          (Header, ''./root:''), (Entry, ''a.txt''), (Entry, ''sub/''), (Blank, []),
          (Header, ''./root/sub:''), (Entry, ''b.txt'')]
   \<and> map_sum id out (main (Suc (Suc 0)) demo_os False False True False False [''root'']) =
     Inr [(Header, ''root:''), (Entry, ''a.txt''), (Entry, ''sub/''), (Blank, []),
          (Header, ''root/sub:''), (Entry, ''b.txt'')]"
  by (simp add: run_simps cong: for_subdirs_weak_cong)

section \<open>The exit status (claim C8)\<close>

text \<open>
  C8: every recording of a path-access failure sets the general-error bit (64) and exactly
  one cause bit chosen by the value of \<^verbatim>\<open>errno\<close>: not-found (8) for \<^verbatim>\<open>ENOENT\<close>,
  permission-denied (16) for \<^verbatim>\<open>EACCES\<close> and \<^verbatim>\<open>EPERM\<close>, other (32) for anything
  else. Listing an entry, walking a directory and the loop over the targets only ever
  add bits to \<^verbatim>\<open>err_code\<close>: every bit set before is set afterwards
  (\<open>bits_kept a b\<close> says \<open>a OR b = b\<close>).
\<close>

theorem C8_error_bits:
  "err_code (handle_error sys w p e s) =
     err_code s OR 64 OR (if e = ENOENT then 8 else if e = EACCES \<or> e = EPERM then 16 else 32)
   \<and> (case list_file sys p nm ll s of
        Inl x \<Rightarrow> True | Inr s' \<Rightarrow> bits_kept (err_code s) (err_code s'))
   \<and> (case list_dir n sys d ll la rec s of
        Inl x \<Rightarrow> True | Inr s' \<Rightarrow> bits_kept (err_code s) (err_code s'))
   \<and> (case main_loop n sys ll la rec multi args s of
        Inl x \<Rightarrow> True | Inr s' \<Rightarrow> bits_kept (err_code s) (err_code s'))"
  using list_dir_kept [of n sys d ll la rec s] main_loop_kept [of n sys ll la rec multi args s]
    list_file_kept [of sys p nm ll s]
  by (auto simp: or.assoc split: sum.split)

theorem C8_error_bits_witness:
  "map_sum id err_code (main_loop (Suc 0) demo_os False False False True [''nope'', ''locked'']
       ((init False False)\<lparr>err_code := 32\<rparr>)) = Inr 120
   \<and> bits_kept 32 120"
proof -
  have e: "map_sum id err_code (main_loop (Suc 0) demo_os False False False True [''nope'', ''locked'']
       ((init False False)\<lparr>err_code := 32\<rparr>)) = Inr 120"
    by (simp add: run_simps cong: for_subdirs_weak_cong)
  then obtain s' where s': "main_loop (Suc 0) demo_os False False False True [''nope'', ''locked'']
       ((init False False)\<lparr>err_code := 32\<rparr>) = Inr s'" "err_code s' = 120"
    by (auto simp: map_sum_def split: sum.splits)
  from C8_error_bits [where sys = demo_os and s = "(init False False)\<lparr>err_code := 32\<rparr>"
      and n = "Suc 0" and ll = False and la = False and rec = False and multi = True
      and args = "[''nope'', ''locked'']"] s'
  have "bits_kept 32 120" by (simp add: init_def)
  with e show ?thesis by simp
qed

section \<open>A target that does not exist (claim C9)\<close>




section \<open>Count-only mode in a recursive walk (claim C10)\<close>



end
